theory Spec2Isabelle
  imports
    Main
    "HOL-Library.Sublist"
    "HOL-Library.AList"
    "HOL-Library.Char_ord"
    "HOL-Library.List_Lexorder"
    "HOL-Library.Product_Lexorder"
begin

section \<open>Strings\<close>

text \<open>
  The script \<^verbatim>\<open>scripts/generate_extraction_artifacts.py\<close> works on Python \<^verbatim>\<open>str\<close> values.
  They are modelled as \<^typ>\<open>string\<close>; a \<^typ>\<open>char\<close> stands for a code point below 256.
  \<^verbatim>\<open>sorted\<close> on strings is the lexicographic order on code points, which is the order
  of \<^typ>\<open>string\<close> obtained from the orders on \<^typ>\<open>char\<close> and on lists.
\<close>

text \<open>
  The characters that \<^verbatim>\<open>str.strip()\<close>, \<^verbatim>\<open>str.isspace()\<close> and the regular expression
  class \<^verbatim>\<open>\s\<close> treat as whitespace, among the code points below 256:
  \<^verbatim>\<open>\t \n \v \f \r\<close>, \<^verbatim>\<open>\x1c\<close> to \<^verbatim>\<open>\x1f\<close>, the space, \<^verbatim>\<open>\x85\<close> and \<^verbatim>\<open>\xa0\<close>.
\<close>

definition is_space :: "char \<Rightarrow> bool" where
  "is_space c =
     (let n = (of_char c :: nat) in
        (9 \<le> n \<and> n \<le> 13) \<or> (28 \<le> n \<and> n \<le> 32) \<or> n = 133 \<or> n = 160)"

text \<open>\<^verbatim>\<open>s.strip()\<close>: drop the leading and the trailing whitespace.\<close>

definition strip :: "string \<Rightarrow> string" where
  "strip s = rev (dropWhile is_space (rev (dropWhile is_space s)))"

text \<open>
  \<^verbatim>\<open>value.replace("LinePallet", "LinePalette")\<close>: the occurrences are found from left to
  right and do not overlap; the search resumes after each replaced occurrence.
\<close>

fun replace_pallet :: "string \<Rightarrow> string" where
  "replace_pallet [] = []"
| "replace_pallet (c # cs) =
     (if prefix ''LinePallet'' (c # cs)
      then ''LinePalette'' @ replace_pallet (drop (length ''LinePallet'') (c # cs))
      else c # replace_pallet cs)"

text \<open>\<^verbatim>\<open>sep.join(xs)\<close>.\<close>

fun join :: "string \<Rightarrow> string list \<Rightarrow> string" where
  "join sep [] = []"
| "join sep [x] = x"
| "join sep (x # y # ys) = x @ sep @ join sep (y # ys)"

text \<open>\<^verbatim>\<open>s.startswith((p1, ..., pn))\<close> with a tuple of prefixes.\<close>

definition startswith_any :: "string \<Rightarrow> string list \<Rightarrow> bool" where
  "startswith_any s ps = list_ex (\<lambda>p. prefix p s) ps"

text \<open>\<^verbatim>\<open>any(token in s for token in tokens)\<close>.\<close>

definition contains_any :: "string \<Rightarrow> string list \<Rightarrow> bool" where
  "contains_any s tokens = list_ex (\<lambda>token. sublist token s) tokens"

text \<open>
  \<^verbatim>\<open>s.lower()\<close> on code points below 256: the letters \<^verbatim>\<open>A\<close> to \<^verbatim>\<open>Z\<close> and the
  Latin-1 capitals \<^verbatim>\<open>\xc0\<close> to \<^verbatim>\<open>\xde\<close> (the multiplication sign \<^verbatim>\<open>\xd7\<close> apart) move
  up by 32; every other character stays.
\<close>

definition lower_char :: "char \<Rightarrow> char" where
  "lower_char c =
     (let n = (of_char c :: nat) in
        if (65 \<le> n \<and> n \<le> 90) \<or> (192 \<le> n \<and> n \<le> 222 \<and> n \<noteq> 215)
        then char_of (n + 32) else c)"

definition lower :: "string \<Rightarrow> string" where
  "lower s = map lower_char s"

section \<open>Action canonicalizer\<close>

definition canonicalize_action :: "string \<Rightarrow> string" where
  "canonicalize_action action =
     (let value0 = strip action;
          value1 = (if suffix ''Execute'' value0
                    then take (length value0 - length ''Execute'') value0
                    else value0)
      in replace_pallet value1)"

section \<open>Cluster classifier\<close>

definition classify_cluster :: "string \<Rightarrow> string" where
  "classify_cluster action =
     (if startswith_any action
           [''actAlign'', ''actRotate'', ''actScale'', ''actSpecify'', ''actSetAs'',
            ''actMoveOrCopy'']
      then ''Transforms''
      else if prefix ''actLinePalette'' action \<or> prefix ''actLinePallet'' action
      then ''LineTypePalette''
      else if startswith_any action
           [''actCenterLine'', ''actConvert'', ''actReversePath'', ''actSplitIntoN'',
            ''actDrawBoundary'', ''actDrawGoldenSpiral'', ''actDeleteDuplicates'',
            ''actEditShapeSize'', ''actEditLineAngle'', ''actLineSymmetry'',
            ''actDesignHelper_'']
      then ''GeometryEdit''
      else if startswith_any action
           [''actSelect'', ''actDeselect'', ''actDeleteSelected'', ''actCreateGroup'',
            ''actUngroup'', ''actOrder'']
      then ''SelectionOrdering''
      else if startswith_any action
           [''actNewProject'', ''actLoadProject'', ''actSaveProject'', ''actClose'',
            ''actOpenDemoProject'', ''actOpenOptions'', ''actClearAll'']
      then ''ProjectLifecycle''
      else if startswith_any action
           [''actShowHideGrid'', ''actShowHideScale'', ''actShowHideDimensionLines'',
            ''actShowHidePrintAreas'', ''actSetGridBackground'', ''actResetView'']
      then ''ViewportDisplay''
      else if startswith_any action [''actShow'', ''actView'', ''actVisit'']
      then ''HelpLinks''
      else if prefix ''actSecret'' action
      then ''SecretBonus''
      else if startswith_any action [''actLayer'', ''actIgnoreLayer'']
      then ''LayerAdvanced''
      else ''Other'')"

section \<open>Control classifier\<close>

definition infer_control_kind :: "string \<Rightarrow> string" where
  "infer_control_kind control_id =
     (if prefix ''chk'' control_id then ''checkbox''
      else if prefix ''cmb'' control_id then ''select''
      else if prefix ''rb'' control_id then ''radio''
      else if prefix ''nb'' control_id then ''number''
      else if prefix ''ed'' control_id then ''text''
      else if prefix ''btn'' control_id then ''button''
      else if prefix ''lbl'' control_id then ''label''
      else if prefix ''gb'' control_id then ''group''
      else if prefix ''tab'' control_id then ''tab''
      else if prefix ''tv'' control_id then ''tree''
      else if startswith_any control_id [''sw'', ''switch''] then ''switch''
      else ''other'')"

definition infer_control_domain :: "string \<Rightarrow> string" where
  "infer_control_domain control_id =
     (let lower = lower control_id in
        if contains_any lower [''stitch'', ''prick'', ''thread''] then ''stitching''
        else if contains_any lower [''svg'', ''dxf''] then ''export''
        else if sublist ''print'' lower \<or> sublist ''tile'' lower \<or> sublist ''dpi'' lower
        then ''print''
        else if contains_any lower [''palette'', ''line'', ''color''] then ''line-types''
        else if contains_any lower [''auto'', ''pitch'', ''zoom'', ''save'', ''option'']
        then ''options''
        else if contains_any lower [''repo'', ''catalog'', ''template''] then ''repository''
        else ''general'')"

section \<open>Rule tables\<close>

text \<open>
  The rule tables of the specification: an ordered list of pairs of a predicate, given by
  its literals, and a category, evaluated from the top, the first match winning.
\<close>

fun first_match :: "(string \<Rightarrow> string list \<Rightarrow> bool) \<Rightarrow> (string list \<times> string) list \<Rightarrow> string \<Rightarrow> string \<Rightarrow> string" where
  "first_match test [] dflt s = dflt"
| "first_match test ((lits, cat) # rules) dflt s =
     (if test s lits then cat else first_match test rules dflt s)"

definition cluster_rules :: "(string list \<times> string) list" where
  "cluster_rules =
     [([''actAlign'', ''actRotate'', ''actScale'', ''actSpecify'', ''actSetAs'',
        ''actMoveOrCopy''], ''Transforms''),
      ([''actLinePalette'', ''actLinePallet''], ''LineTypePalette''),
      ([''actCenterLine'', ''actConvert'', ''actReversePath'', ''actSplitIntoN'',
        ''actDrawBoundary'', ''actDrawGoldenSpiral'', ''actDeleteDuplicates'',
        ''actEditShapeSize'', ''actEditLineAngle'', ''actLineSymmetry'',
        ''actDesignHelper_''], ''GeometryEdit''),
      ([''actSelect'', ''actDeselect'', ''actDeleteSelected'', ''actCreateGroup'',
        ''actUngroup'', ''actOrder''], ''SelectionOrdering''),
      ([''actNewProject'', ''actLoadProject'', ''actSaveProject'', ''actClose'',
        ''actOpenDemoProject'', ''actOpenOptions'', ''actClearAll''], ''ProjectLifecycle''),
      ([''actShowHideGrid'', ''actShowHideScale'', ''actShowHideDimensionLines'',
        ''actShowHidePrintAreas'', ''actSetGridBackground'', ''actResetView''],
       ''ViewportDisplay''),
      ([''actShow'', ''actView'', ''actVisit''], ''HelpLinks''),
      ([''actSecret''], ''SecretBonus''),
      ([''actLayer'', ''actIgnoreLayer''], ''LayerAdvanced'')]"

definition cluster_categories :: "string list" where
  "cluster_categories =
     [''Transforms'', ''LineTypePalette'', ''GeometryEdit'', ''SelectionOrdering'',
      ''ProjectLifecycle'', ''ViewportDisplay'', ''HelpLinks'', ''SecretBonus'',
      ''LayerAdvanced'', ''Other'']"

definition kind_rules :: "(string list \<times> string) list" where
  "kind_rules =
     [([''chk''], ''checkbox''), ([''cmb''], ''select''), ([''rb''], ''radio''),
      ([''nb''], ''number''), ([''ed''], ''text''), ([''btn''], ''button''),
      ([''lbl''], ''label''), ([''gb''], ''group''), ([''tab''], ''tab''),
      ([''tv''], ''tree''), ([''sw'', ''switch''], ''switch'')]"

definition control_kinds :: "string list" where
  "control_kinds =
     [''checkbox'', ''select'', ''radio'', ''number'', ''text'', ''button'', ''label'',
      ''group'', ''tab'', ''tree'', ''switch'', ''other'']"

definition domain_rules :: "(string list \<times> string) list" where
  "domain_rules =
     [([''stitch'', ''prick'', ''thread''], ''stitching''),
      ([''svg'', ''dxf''], ''export''),
      ([''print'', ''tile'', ''dpi''], ''print''),
      ([''palette'', ''line'', ''color''], ''line-types''),
      ([''auto'', ''pitch'', ''zoom'', ''save'', ''option''], ''options''),
      ([''repo'', ''catalog'', ''template''], ''repository'')]"

definition control_domains :: "string list" where
  "control_domains =
     [''stitching'', ''export'', ''print'', ''line-types'', ''options'', ''repository'',
      ''general'']"

section \<open>Text section parser\<close>

record FormSection =
  resource_file :: string
  form_name :: string
  actions :: "string list"
  controls :: "string list"

text \<open>
  The header pattern \<^verbatim>\<open>^===\s+(.+?)\s+\|\s+(.+?)\s+\|\<close>, matched at the start of the
  line by a backtracking matcher: \<^verbatim>\<open>\s+\<close> is greedy (the longest run first, giving
  characters back one at a time), \<^verbatim>\<open>(.+?)\<close> is lazy (one character first, one more at
  each failure of what follows), and \<^verbatim>\<open>.\<close> is any character but the newline. The
  continuation \<open>k\<close> is the rest of the pattern.
\<close>

fun greedy_plus :: "(char \<Rightarrow> bool) \<Rightarrow> (string \<Rightarrow> 'a option) \<Rightarrow> string \<Rightarrow> 'a option" where
  "greedy_plus P k [] = None"
| "greedy_plus P k (c # cs) =
     (if P c
      then (case greedy_plus P k cs of Some r \<Rightarrow> Some r | None \<Rightarrow> k cs)
      else None)"

fun lazy_plus :: "(char \<Rightarrow> bool) \<Rightarrow> (string \<Rightarrow> string \<Rightarrow> 'a option) \<Rightarrow> string \<Rightarrow> string \<Rightarrow> 'a option" where
  "lazy_plus P k acc [] = None"
| "lazy_plus P k acc (c # cs) =
     (if P c
      then (case k (acc @ [c]) cs of Some r \<Rightarrow> Some r | None \<Rightarrow> lazy_plus P k (acc @ [c]) cs)
      else None)"

definition literal :: "string \<Rightarrow> (string \<Rightarrow> 'a option) \<Rightarrow> string \<Rightarrow> 'a option" where
  "literal l k s = (if prefix l s then k (drop (length l) s) else None)"

definition not_newline :: "char \<Rightarrow> bool" where
  "not_newline c = (c \<noteq> CHR 0x0A)"

text \<open>\<^verbatim>\<open>HEADER_PATTERN.match(line)\<close>: the two groups, or \<open>None\<close>.\<close>

definition header_match :: "string \<Rightarrow> (string \<times> string) option" where
  "header_match line =
     literal ''==='' (greedy_plus is_space (lazy_plus not_newline (\<lambda>g1.
       greedy_plus is_space (literal ''|'' (greedy_plus is_space (lazy_plus not_newline (\<lambda>g2.
         greedy_plus is_space (literal ''|'' (\<lambda>rest. Some (g1, g2)))) [])))) [])) line"

text \<open>\<^verbatim>\<open>raw_line.rstrip("\n")\<close>.\<close>

definition rstrip_newline :: "string \<Rightarrow> string" where
  "rstrip_newline s = rev (dropWhile (\<lambda>c. c = CHR 0x0A) (rev s))"

text \<open>
  The local variables \<^verbatim>\<open>forms\<close>, \<^verbatim>\<open>current\<close> and \<^verbatim>\<open>mode\<close> of \<^verbatim>\<open>parse_form_sections\<close>,
  and the body of its loop for one line of the file.
\<close>

type_synonym parse_state = "FormSection list \<times> FormSection option \<times> string option"

definition parse_line :: "parse_state \<Rightarrow> string \<Rightarrow> parse_state" where
  "parse_line st raw_line =
     (case st of (forms, current, mode) \<Rightarrow>
       (let line = rstrip_newline raw_line in
        (case header_match line of
          Some (g1, g2) \<Rightarrow>
            ((case current of Some cur \<Rightarrow> forms @ [cur] | None \<Rightarrow> forms),
             Some \<lparr>resource_file = strip g1, form_name = strip g2, actions = [], controls = []\<rparr>,
             None)
        | None \<Rightarrow>
            (case current of
               None \<Rightarrow> (forms, current, mode)
             | Some cur \<Rightarrow>
                 if prefix ''Actions ('' line then (forms, current, Some ''actions'')
                 else if prefix ''Controls ('' line then (forms, current, Some ''controls'')
                 else if strip line = [] then (forms, current, mode)
                 else if mode = Some ''actions''
                 then (forms, Some (cur\<lparr>actions := actions cur @ [strip line]\<rparr>), mode)
                 else if mode = Some ''controls''
                 then (forms, Some (cur\<lparr>controls := controls cur @ [strip line]\<rparr>), mode)
                 else (forms, current, mode)))))"

text \<open>The input is the sequence of lines that iterating over the file yields.\<close>

definition parse_form_sections :: "string list \<Rightarrow> FormSection list" where
  "parse_form_sections raw_lines =
     (case foldl parse_line ([], None, None) raw_lines of
        (forms, current, mode) \<Rightarrow>
          (case current of Some cur \<Rightarrow> forms @ [cur] | None \<Rightarrow> forms))"

text \<open>What the header of a raw line is, and the section a header opens.\<close>

definition header_of :: "string \<Rightarrow> (string \<times> string) option" where
  "header_of raw_line = header_match (rstrip_newline raw_line)"

definition is_blank :: "string \<Rightarrow> bool" where
  "is_blank raw_line = (strip (rstrip_newline raw_line) = [])"

definition finish :: "parse_state \<Rightarrow> FormSection list" where
  "finish st = (case st of (forms, current, mode) \<Rightarrow>
     (case current of Some cur \<Rightarrow> forms @ [cur] | None \<Rightarrow> forms))"

definition section_names :: "FormSection \<Rightarrow> string \<times> string" where
  "section_names f = (resource_file f, form_name f)"

definition header_names :: "string \<times> string \<Rightarrow> string \<times> string" where
  "header_names g = (strip (fst g), strip (snd g))"

section \<open>Ticket reconciler\<close>

text \<open>
  A row of the ticket CSV, as \<^verbatim>\<open>csv.DictReader\<close> yields it, is a dictionary from the
  column names to the fields. A field is a string, or \<^verbatim>\<open>None\<close> in a row that is shorter
  than the header: the reader fills the columns that the row lacks with \<^verbatim>\<open>None\<close>, so that
  the key is present and its value is \<^verbatim>\<open>None\<close>. A field is a \<^typ>\<open>string option\<close>, with
  \<^term>\<open>None :: string option\<close> for \<^verbatim>\<open>None\<close>; a key of the dictionary is absent when the
  header has no such column. The extra fields of a row longer than the header, which the
  reader keeps as a list under the key \<^verbatim>\<open>None\<close>, are never read and are left out.
\<close>

type_synonym csv_row = "string \<rightharpoonup> string option"

type_synonym ticket_map = "string \<rightharpoonup> csv_row"

text \<open>
  \<^verbatim>\<open>d.get(key, default)\<close>: the value of a key that is present, also when that value is
  \<^verbatim>\<open>None\<close>, and the default for a key that is absent.
\<close>

definition dict_get :: "csv_row \<Rightarrow> string \<Rightarrow> string option \<Rightarrow> string option" where
  "dict_get d key dflt = (case d key of Some v \<Rightarrow> v | None \<Rightarrow> dflt)"

text \<open>
  \<^verbatim>\<open>(row.get("action") or "").strip()\<close>: \<^verbatim>\<open>row.get("action")\<close> is \<^verbatim>\<open>None\<close> for an absent key
  and for a field that is \<^verbatim>\<open>None\<close>, and \<^verbatim>\<open>or\<close> replaces \<^verbatim>\<open>None\<close> and the empty string by the
  empty string.
\<close>

definition row_action :: "csv_row \<Rightarrow> string" where
  "row_action row =
     strip (case dict_get row ''action'' None of
              None \<Rightarrow> []
            | Some v \<Rightarrow> if v = [] then [] else v)"

text \<open>The body of the loop of \<^verbatim>\<open>load_action_ticket_map\<close>: one row.\<close>

definition add_ticket_row :: "ticket_map \<Rightarrow> csv_row \<Rightarrow> ticket_map" where
  "add_ticket_row mapping row =
     (let action = row_action row in
        if action \<noteq> [] then mapping(action \<mapsto> row) else mapping)"

text \<open>The input is the sequence of rows that the reader yields.\<close>

definition load_action_ticket_map :: "csv_row list \<Rightarrow> ticket_map" where
  "load_action_ticket_map rows = foldl add_ticket_row Map.empty rows"

section \<open>Action matrix\<close>

text \<open>
  A row of the action matrix. Its three ticket fields are what \<^verbatim>\<open>matched.get(key, "")\<close>
  returns, a string or the \<^verbatim>\<open>None\<close> of a short CSV row, and the empty string in an unmapped
  row.
\<close>

record matrix_row =
  action :: string
  aliases :: string
  source_forms :: string
  cluster :: string
  mapped_ticket :: "string option"
  feature_group :: "string option"
  phase :: "string option"
  status :: string

text \<open>
  \<^verbatim>\<open>by_action\<close> is a dictionary, in insertion order, from a canonical action to its item
  \<^verbatim>\<open>{"aliases": set(), "forms": set()}\<close>, here the pair of the two sets.
\<close>

type_synonym action_item = "string set \<times> string set"

type_synonym action_dict = "(string \<times> action_item) list"

definition source_form_names :: "string set" where
  "source_form_names = {''TfrmLeat'', ''TfrmLeat_Macintosh''}"

text \<open>The body of the inner loop: one raw action of the form named \<open>fname\<close>.\<close>

definition add_action :: "string \<Rightarrow> action_dict \<Rightarrow> string \<Rightarrow> action_dict" where
  "add_action fname by_action raw_action =
     (let canonical = canonicalize_action raw_action in
        if \<not> prefix ''act'' canonical then by_action
        else
          (let item = (case map_of by_action canonical of
                         Some it \<Rightarrow> it | None \<Rightarrow> ({}, {}))
           in AList.update canonical (insert raw_action (fst item), insert fname (snd item))
                by_action))"

text \<open>The body of the outer loop: one form.\<close>

definition add_form :: "action_dict \<Rightarrow> FormSection \<Rightarrow> action_dict" where
  "add_form by_action form =
     (if form_name form \<notin> source_form_names then by_action
      else foldl (add_action (form_name form)) by_action (actions form))"

definition collect_actions :: "FormSection list \<Rightarrow> action_dict" where
  "collect_actions forms = foldl add_form [] forms"

text \<open>
  \<^verbatim>\<open>by_action[canonical]\<close>; the key is taken from \<^verbatim>\<open>by_action\<close> itself, so the lookup
  finds it.
\<close>

definition item_of :: "action_dict \<Rightarrow> string \<Rightarrow> action_item" where
  "item_of by_action canonical =
     (case map_of by_action canonical of Some it \<Rightarrow> it | None \<Rightarrow> ({}, {}))"

definition aliases_of :: "action_dict \<Rightarrow> string \<Rightarrow> string list" where
  "aliases_of by_action canonical = sorted_list_of_set (fst (item_of by_action canonical))"

definition forms_for_action_of :: "action_dict \<Rightarrow> string \<Rightarrow> string list" where
  "forms_for_action_of by_action canonical =
     sorted_list_of_set (snd (item_of by_action canonical))"

text \<open>The loop over the aliases, which stops at the first alias that is a key.\<close>

fun first_alias_match :: "ticket_map \<Rightarrow> string list \<Rightarrow> csv_row option" where
  "first_alias_match ticket_map [] = None"
| "first_alias_match ticket_map (alias # rest) =
     (case ticket_map alias of
        Some matched \<Rightarrow> Some matched
      | None \<Rightarrow> first_alias_match ticket_map rest)"

definition reconcile :: "ticket_map \<Rightarrow> string \<Rightarrow> string list \<Rightarrow> csv_row option" where
  "reconcile ticket_map canonical alias_list =
     (case ticket_map canonical of
        Some matched \<Rightarrow> Some matched
      | None \<Rightarrow> first_alias_match ticket_map alias_list)"

definition make_row :: "action_dict \<Rightarrow> ticket_map \<Rightarrow> string \<Rightarrow> matrix_row" where
  "make_row by_action ticket_map canonical =
     (let alias_list = aliases_of by_action canonical;
          forms_for_action = forms_for_action_of by_action canonical
      in case reconcile ticket_map canonical alias_list of
           Some matched \<Rightarrow>
             \<lparr>action = canonical,
              aliases = join '';'' alias_list,
              source_forms = join '';'' forms_for_action,
              cluster = classify_cluster canonical,
              mapped_ticket = dict_get matched ''ticket_id'' (Some []),
              feature_group = dict_get matched ''feature_group'' (Some []),
              phase = dict_get matched ''phase'' (Some []),
              status = ''mapped''\<rparr>
         | None \<Rightarrow>
             \<lparr>action = canonical,
              aliases = join '';'' alias_list,
              source_forms = join '';'' forms_for_action,
              cluster = classify_cluster canonical,
              mapped_ticket = Some [],
              feature_group = Some [],
              phase = Some [],
              status = ''unmapped''\<rparr>)"

definition build_action_matrix :: "FormSection list \<Rightarrow> ticket_map \<Rightarrow> matrix_row list" where
  "build_action_matrix forms ticket_map =
     (let by_action = collect_actions forms
      in map (make_row by_action ticket_map) (sort (map fst by_action)))"

text \<open>
  The raw actions in scope: those of the forms on the allow-list, in the order of the
  input, each with the name of the form that declares it.
\<close>

definition observed :: "FormSection list \<Rightarrow> (string \<times> string) list" where
  "observed forms =
     concat (map (\<lambda>form. map (\<lambda>raw_action. (raw_action, form_name form)) (actions form))
                 (filter (\<lambda>form. form_name form \<in> source_form_names) forms))"

definition is_action :: "string \<Rightarrow> bool" where
  "is_action raw_action = prefix ''act'' (canonicalize_action raw_action)"

text \<open>The aliases and the form names that the input holds for a canonical action.\<close>

definition alias_set :: "FormSection list \<Rightarrow> string \<Rightarrow> string set" where
  "alias_set forms canonical =
     {raw_action. \<exists>fname. (raw_action, fname) \<in> set (observed forms)
                        \<and> canonicalize_action raw_action = canonical}"

definition form_set :: "FormSection list \<Rightarrow> string \<Rightarrow> string set" where
  "form_set forms canonical =
     {fname. \<exists>raw_action. (raw_action, fname) \<in> set (observed forms)
                        \<and> canonicalize_action raw_action = canonical}"

definition canonical_set :: "FormSection list \<Rightarrow> string set" where
  "canonical_set forms =
     {canonicalize_action raw_action | raw_action fname.
        (raw_action, fname) \<in> set (observed forms) \<and> is_action raw_action}"

text \<open>
  A row carries the fields of a ticket entry: each of the three ticket fields of the row is
  the field of the entry, \<^verbatim>\<open>None\<close> included, and the empty string when the entry has no
  such column.
\<close>

definition carries :: "matrix_row \<Rightarrow> csv_row \<Rightarrow> bool" where
  "carries r entry \<longleftrightarrow>
     mapped_ticket r = dict_get entry ''ticket_id'' (Some [])
     \<and> feature_group r = dict_get entry ''feature_group'' (Some [])
     \<and> phase r = dict_get entry ''phase'' (Some [])
     \<and> status r = ''mapped''"

section \<open>Form schema\<close>

record control_entry =
  control_id :: string
  kind :: string
  domain :: string

record form_entry =
  entry_form_name :: string
  entry_resource_file :: string
  action_count :: int
  control_count :: int
  kind_counts :: "(string \<times> int) list"
  domain_counts :: "(string \<times> int) list"
  entry_controls :: "control_entry list"

record source_files_entry =
  form_details :: string
  action_ticket_map :: string

record form_schema =
  generated_at_utc :: string
  source_files :: source_files_entry
  forms :: "form_entry list"

definition FORM_DETAILS_PATH :: string where
  "FORM_DETAILS_PATH =
     ''/home/workspace/workspace/leather-making/extracted-rsrc/rsrc_form_details.txt''"

definition ACTION_TICKET_MAP_PATH :: string where
  "ACTION_TICKET_MAP_PATH =
     ''/home/workspace/workspace/leather-making/source_app_action_ticket_map.csv''"

definition target_forms :: "string set" where
  "target_forms =
     {''TfrmOptions'', ''TfrmOptions_Macintosh'', ''TfrmSVGExportOptions'',
      ''TfrmSVGExportOptions_Macintosh'', ''TfrmStitchingHoleSettings'',
      ''TfrmChangeStitchingHoleType'', ''TfrmEditPallet'', ''TfrmEditPallet_Macintosh'',
      ''TfrmPreview'', ''TfrmPreview_Macintosh'', ''TfrmRepository'',
      ''TfrmRepository_Macintosh''}"

text \<open>
  \<^verbatim>\<open>counts[key] += 1\<close> on a \<^verbatim>\<open>defaultdict(int)\<close>, a dictionary in insertion order: a
  missing key starts from 0 and is added at the end.
\<close>

definition increment :: "(string \<times> int) list \<Rightarrow> string \<Rightarrow> (string \<times> int) list" where
  "increment counts key =
     AList.update key ((case map_of counts key of Some n \<Rightarrow> n | None \<Rightarrow> 0) + 1) counts"

text \<open>
  The body of the loop over the controls of a form, on the local variables
  \<^verbatim>\<open>controls\<close>, \<^verbatim>\<open>kind_counts\<close> and \<^verbatim>\<open>domain_counts\<close>.
\<close>

type_synonym tally = "control_entry list \<times> (string \<times> int) list \<times> (string \<times> int) list"

definition add_control :: "tally \<Rightarrow> string \<Rightarrow> tally" where
  "add_control t cid =
     (case t of (ctrls, kcounts, dcounts) \<Rightarrow>
        (let k = infer_control_kind cid;
             d = infer_control_domain cid
         in (ctrls @ [\<lparr>control_id = cid, kind = k, domain = d\<rparr>],
             increment kcounts k,
             increment dcounts d)))"

text \<open>
  The entry of one selected form; \<^verbatim>\<open>dict(sorted(counts.items()))\<close> is the list of the
  items in the order of pairs.
\<close>

definition make_form_entry :: "FormSection \<Rightarrow> form_entry" where
  "make_form_entry form =
     (case foldl add_control ([], [], []) (controls form) of
        (ctrls, kcounts, dcounts) \<Rightarrow>
          \<lparr>entry_form_name = form_name form,
           entry_resource_file = resource_file form,
           action_count = int (length (actions form)),
           control_count = int (length (controls form)),
           kind_counts = sort kcounts,
           domain_counts = sort dcounts,
           entry_controls = ctrls\<rparr>)"

text \<open>The time of the call, \<^verbatim>\<open>datetime.now(timezone.utc).isoformat(...)\<close>, is a parameter.\<close>

definition build_form_schema :: "string \<Rightarrow> FormSection list \<Rightarrow> form_schema" where
  "build_form_schema now form_list =
     (let selected_forms = filter (\<lambda>form. form_name form \<in> target_forms) form_list;
          selected_sorted = sort_key form_name selected_forms
      in \<lparr>generated_at_utc = now,
          source_files = \<lparr>form_details = FORM_DETAILS_PATH,
                          action_ticket_map = ACTION_TICKET_MAP_PATH\<rparr>,
          forms = map make_form_entry selected_sorted\<rparr>)"

section \<open>Auxiliary notions\<close>

text \<open>
  One step of the two nested loops of \<^verbatim>\<open>build_action_matrix\<close> on a pair of a raw action
  and the name of its form; a form without the raw actions that are no actions; and the
  record that \<^verbatim>\<open>build_form_schema\<close> appends for a control identifier.
\<close>

definition add_pair :: "action_dict \<Rightarrow> string \<times> string \<Rightarrow> action_dict" where
  "add_pair by_action p = add_action (snd p) by_action (fst p)"

definition drop_noise :: "FormSection \<Rightarrow> FormSection" where
  "drop_noise form = form\<lparr>actions := filter is_action (actions form)\<rparr>"

definition make_control :: "string \<Rightarrow> control_entry" where
  "make_control cid =
     \<lparr>control_id = cid, kind = infer_control_kind cid, domain = infer_control_domain cid\<rparr>"

section \<open>A worked input\<close>

definition example_lines :: "string list" where
  "example_lines =
     [''rsrc form details'' @ [CHR 0x0A],
      ''=== app.rsrc | TfrmLeat | main form'' @ [CHR 0x0A],
      ''Actions (5):'' @ [CHR 0x0A],
      ''  actZoomIn'' @ [CHR 0x0A],
      ''  actAlignLeftExecute'' @ [CHR 0x0A],
      [CHR 0x0A],
      ''  actAlignLeft'' @ [CHR 0x0A],
      ''  OnIdle'' @ [CHR 0x0A],
      ''  actAAExecute'' @ [CHR 0x0A],
      ''Controls (1):'' @ [CHR 0x0A],
      ''  btnOk'' @ [CHR 0x0A],
      ''=== app.rsrc | TfrmOptions | options'' @ [CHR 0x0A],
      ''Actions (1):'' @ [CHR 0x0A],
      ''  actCloseExecute'' @ [CHR 0x0A],
      ''Controls (4):'' @ [CHR 0x0A],
      ''  chkStitchAutoSave'' @ [CHR 0x0A],
      ''  btnOk'' @ [CHR 0x0A],
      ''  chkZoom'' @ [CHR 0x0A],
      ''  Panel1'' @ [CHR 0x0A],
      ''=== mac.rsrc | TfrmLeat_Macintosh | main form'' @ [CHR 0x0A],
      ''Actions (2):'' @ [CHR 0x0A],
      ''  actAlignLeftExecute'' @ [CHR 0x0A],
      ''  actAlignLeftExecute'']"

definition example_forms :: "FormSection list" where
  "example_forms =
     [\<lparr>resource_file = ''app.rsrc'', form_name = ''TfrmLeat'',
       actions = [''actZoomIn'', ''actAlignLeftExecute'', ''actAlignLeft'', ''OnIdle'',
                  ''actAAExecute''],
       controls = [''btnOk'']\<rparr>,
      \<lparr>resource_file = ''app.rsrc'', form_name = ''TfrmOptions'',
       actions = [''actCloseExecute''],
       controls = [''chkStitchAutoSave'', ''btnOk'', ''chkZoom'', ''Panel1'']\<rparr>,
      \<lparr>resource_file = ''mac.rsrc'', form_name = ''TfrmLeat_Macintosh'',
       actions = [''actAlignLeftExecute'', ''actAlignLeftExecute''],
       controls = []\<rparr>]"

text \<open>
  The rows of a ticket CSV with the header \<^verbatim>\<open>action,ticket_id,feature_group,phase\<close>; the
  second and the fourth row have two fields only, so the reader sets their last two
  columns to \<^verbatim>\<open>None\<close>.
\<close>

definition ticket_row_1 :: csv_row where
  "ticket_row_1 =
     [''action'' \<mapsto> Some '' actAlignLeft '', ''ticket_id'' \<mapsto> Some ''T-0'',
      ''feature_group'' \<mapsto> Some ''Old'', ''phase'' \<mapsto> Some ''0'']"

definition ticket_row_2 :: csv_row where
  "ticket_row_2 =
     [''action'' \<mapsto> Some ''  '', ''ticket_id'' \<mapsto> Some ''T-9'',
      ''feature_group'' \<mapsto> None, ''phase'' \<mapsto> None]"

definition ticket_row_3 :: csv_row where
  "ticket_row_3 =
     [''action'' \<mapsto> Some ''actAlignLeft'', ''ticket_id'' \<mapsto> Some ''T-1'',
      ''feature_group'' \<mapsto> Some ''Transforms'', ''phase'' \<mapsto> Some ''1'']"

definition ticket_row_4 :: csv_row where
  "ticket_row_4 =
     [''action'' \<mapsto> Some ''actAAExecute'', ''ticket_id'' \<mapsto> Some ''T-2'',
      ''feature_group'' \<mapsto> None, ''phase'' \<mapsto> None]"

definition example_tickets :: ticket_map where
  "example_tickets =
     load_action_ticket_map [ticket_row_1, ticket_row_2, ticket_row_3, ticket_row_4]"

definition row_actAA :: matrix_row where
  "row_actAA =
     \<lparr>action = ''actAA'', aliases = ''actAAExecute'', source_forms = ''TfrmLeat'',
      cluster = ''Other'', mapped_ticket = Some ''T-2'', feature_group = None, phase = None,
      status = ''mapped''\<rparr>"

definition row_actAlignLeft :: matrix_row where
  "row_actAlignLeft =
     \<lparr>action = ''actAlignLeft'', aliases = ''actAlignLeft;actAlignLeftExecute'',
      source_forms = ''TfrmLeat;TfrmLeat_Macintosh'', cluster = ''Transforms'',
      mapped_ticket = Some ''T-1'', feature_group = Some ''Transforms'', phase = Some ''1'',
      status = ''mapped''\<rparr>"

definition row_actZoomIn :: matrix_row where
  "row_actZoomIn =
     \<lparr>action = ''actZoomIn'', aliases = ''actZoomIn'', source_forms = ''TfrmLeat'',
      cluster = ''Other'', mapped_ticket = Some [], feature_group = Some [], phase = Some [],
      status = ''unmapped''\<rparr>"

definition entry_TfrmOptions :: form_entry where
  "entry_TfrmOptions =
     \<lparr>entry_form_name = ''TfrmOptions'', entry_resource_file = ''app.rsrc'',
      action_count = 1, control_count = 4,
      kind_counts = [(''button'', 1), (''checkbox'', 2), (''other'', 1)],
      domain_counts = [(''general'', 2), (''options'', 1), (''stitching'', 1)],
      entry_controls =
        [\<lparr>control_id = ''chkStitchAutoSave'', kind = ''checkbox'', domain = ''stitching''\<rparr>,
         \<lparr>control_id = ''btnOk'', kind = ''button'', domain = ''general''\<rparr>,
         \<lparr>control_id = ''chkZoom'', kind = ''checkbox'', domain = ''options''\<rparr>,
         \<lparr>control_id = ''Panel1'', kind = ''other'', domain = ''general''\<rparr>]\<rparr>"

section \<open>Facts about the string operations\<close>

lemma replace_pallet_hit:
  assumes "prefix ''LinePallet'' s"
  shows "replace_pallet s = ''LinePalette'' @ replace_pallet (drop (length ''LinePallet'') s)"
proof (cases s)
  case Nil
  with assms show ?thesis by simp
next
  case (Cons c cs)
  from assms have "prefix ''LinePallet'' (c # cs)" unfolding Cons .
  then show ?thesis unfolding Cons by (simp only: replace_pallet.simps if_True)
qed

lemma replace_pallet_miss:
  "\<not> prefix ''LinePallet'' (c # cs) \<Longrightarrow> replace_pallet (c # cs) = c # replace_pallet cs"
  by (simp only: replace_pallet.simps if_False)

lemma replace_pallet_Palette:
  "replace_pallet (''LinePalette'' @ r) = ''LinePalette'' @ replace_pallet r"
  by simp

text \<open>
  A string without the letter \<^verbatim>\<open>L\<close> that starts the output of the substitution already
  starts its input: the substitution only inserts text that begins with \<^verbatim>\<open>L\<close>.
\<close>

lemma prefix_noL_replace:
  "CHR ''L'' \<notin> set q \<Longrightarrow> prefix q (replace_pallet cs) \<Longrightarrow> prefix q cs"
proof (induction cs arbitrary: q rule: replace_pallet.induct)
  case 1
  then show ?case by simp
next
  case (2 c cs)
  show ?case
  proof (cases "prefix ''LinePallet'' (c # cs)")
    case True
    with 2(3,4) have "q = []" by (cases q) auto
    then show ?thesis by simp
  next
    case False
    show ?thesis
    proof (cases q)
      case Nil
      then show ?thesis by simp
    next
      case (Cons a q')
      with False 2(3,4) have "a = c" "prefix q' (replace_pallet cs)" "CHR ''L'' \<notin> set q'"
        by auto
      with 2(2)[OF False] Cons show ?thesis by simp
    qed
  qed
qed

text \<open>The output of the substitution holds no misspelling any more.\<close>

lemma replace_pallet_idem: "replace_pallet (replace_pallet s) = replace_pallet s"
proof (induction s rule: replace_pallet.induct)
  case 1
  then show ?case by simp
next
  case (2 c cs)
  show ?case
  proof (cases "prefix ''LinePallet'' (c # cs)")
    case True
    from 2(1)[OF True] show ?thesis
      unfolding replace_pallet_hit[OF True] replace_pallet_Palette by (rule arg_cong)
  next
    case False
    have "\<not> prefix ''LinePallet'' (c # replace_pallet cs)"
    proof
      assume "prefix ''LinePallet'' (c # replace_pallet cs)"
      then have c: "c = CHR ''L''" and "prefix ''inePallet'' (replace_pallet cs)" by auto
      then have "prefix ''inePallet'' cs"
        using prefix_noL_replace[of "''inePallet''" cs] by simp
      with c False show False by simp
    qed
    then have "replace_pallet (c # replace_pallet cs) = c # replace_pallet (replace_pallet cs)"
      by (rule replace_pallet_miss)
    then show ?thesis
      unfolding replace_pallet_miss[OF False] using 2(2)[OF False] by (simp only:)
  qed
qed

lemma replace_pallet_id: "\<not> sublist ''LinePallet'' s \<Longrightarrow> replace_pallet s = s"
proof (induction s)
  case Nil
  then show ?case by simp
next
  case (Cons c cs)
  then have np: "\<not> prefix ''LinePallet'' (c # cs)" and ns: "\<not> sublist ''LinePallet'' cs"
    by (auto simp: sublist_Cons_right)
  show ?case unfolding replace_pallet_miss[OF np] Cons.IH[OF ns] ..
qed

section \<open>Properties of the action canonicalizer\<close>

text \<open>
  C1, as stated: canonicalization is idempotent on every raw action string. The code strips
  the suffix \<^verbatim>\<open>Execute\<close> once per call, so a name that ends in it twice loses one suffix
  at each application.
\<close>

theorem canonicalize_action_not_idempotent:
  "canonicalize_action (canonicalize_action ''actFooExecuteExecute'')
     \<noteq> canonicalize_action ''actFooExecuteExecute''"
  by code_simp

text \<open>
  C1, amended: whenever the canonical form of a raw action has no surrounding whitespace
  and does not end with \<^verbatim>\<open>Execute\<close>, canonicalizing it again changes nothing.
\<close>

theorem canonicalize_action_idempotent:
  assumes "strip (canonicalize_action s) = canonicalize_action s"
    and "\<not> suffix ''Execute'' (canonicalize_action s)"
  shows "canonicalize_action (canonicalize_action s) = canonicalize_action s"
proof -
  have "canonicalize_action (canonicalize_action s) = replace_pallet (canonicalize_action s)"
    using assms by (simp add: canonicalize_action_def[of "canonicalize_action s"] Let_def)
  also have "\<dots> = canonicalize_action s"
    by (simp add: canonicalize_action_def[of s] Let_def replace_pallet_idem)
  finally show ?thesis .
qed

theorem canonicalize_action_idempotent_witness:
  "strip (canonicalize_action '' actLinePalletSetExecute '')
     = canonicalize_action '' actLinePalletSetExecute ''
   \<and> \<not> suffix ''Execute'' (canonicalize_action '' actLinePalletSetExecute '')
   \<and> canonicalize_action (canonicalize_action '' actLinePalletSetExecute '')
     = canonicalize_action '' actLinePalletSetExecute ''
   \<and> canonicalize_action '' actLinePalletSetExecute '' = ''actLinePaletteSet''"
proof -
  have a: "strip (canonicalize_action '' actLinePalletSetExecute '')
             = canonicalize_action '' actLinePalletSetExecute ''"
    by code_simp
  have b: "\<not> suffix ''Execute'' (canonicalize_action '' actLinePalletSetExecute '')"
    by code_simp
  have c: "canonicalize_action '' actLinePalletSetExecute '' = ''actLinePaletteSet''"
    by code_simp
  from canonicalize_action_idempotent[OF a b] a b c show ?thesis by simp
qed

text \<open>
  C2, as stated: when the trimmed raw action ends with \<^verbatim>\<open>Execute\<close>, the result is the
  remaining prefix, unchanged. The code goes on to replace \<^verbatim>\<open>LinePallet\<close> in that prefix.
\<close>

theorem canonicalize_action_changes_prefix:
  "strip ''actLinePalletExecute'' = ''actLinePallet'' @ ''Execute''
   \<and> canonicalize_action ''actLinePalletExecute'' \<noteq> ''actLinePallet''"
  by code_simp

text \<open>
  C2, amended: when the trimmed raw action is \<open>p\<close> followed by \<^verbatim>\<open>Execute\<close>, the result is
  \<open>p\<close> with every \<^verbatim>\<open>LinePallet\<close> replaced by \<^verbatim>\<open>LinePalette\<close> and nothing else changed;
  it is \<open>p\<close> itself when \<open>p\<close> does not contain \<^verbatim>\<open>LinePallet\<close>.
\<close>

theorem canonicalize_action_strips_suffix:
  assumes "strip s = p @ ''Execute''"
  shows "canonicalize_action s = replace_pallet p
         \<and> (\<not> sublist ''LinePallet'' p \<longrightarrow> canonicalize_action s = p)"
proof -
  have "canonicalize_action s = replace_pallet p"
    using assms by (simp add: canonicalize_action_def Let_def suffix_def)
  then show ?thesis by (simp add: replace_pallet_id)
qed

theorem canonicalize_action_strips_suffix_witness:
  "strip '' actAlignLeftExecute'' = ''actAlignLeft'' @ ''Execute''
   \<and> \<not> sublist ''LinePallet'' ''actAlignLeft''
   \<and> canonicalize_action '' actAlignLeftExecute'' = ''actAlignLeft''"
proof -
  have a: "strip '' actAlignLeftExecute'' = ''actAlignLeft'' @ ''Execute''" by code_simp
  have b: "\<not> sublist ''LinePallet'' ''actAlignLeft''" by code_simp
  from canonicalize_action_strips_suffix[OF a] a b show ?thesis by simp
qed

section \<open>Properties of the classifiers\<close>

lemma first_match_least:
  "i < length rules \<Longrightarrow> test s (fst (rules ! i)) \<Longrightarrow>
   (\<And>k. k < i \<Longrightarrow> \<not> test s (fst (rules ! k))) \<Longrightarrow>
   first_match test rules dflt s = snd (rules ! i)"
proof (induction rules arbitrary: i)
  case Nil
  then show ?case by simp
next
  case (Cons r rules)
  obtain lits cat where r: "r = (lits, cat)" by (cases r)
  show ?case
  proof (cases i)
    case 0
    with Cons.prems r show ?thesis by simp
  next
    case (Suc j)
    from Cons.prems(3)[of 0] Suc r have "\<not> test s lits" by simp
    moreover have "first_match test rules dflt s = snd (rules ! j)"
    proof (rule Cons.IH)
      show "j < length rules" using Cons.prems(1) Suc by simp
      show "test s (fst (rules ! j))" using Cons.prems(2) Suc by simp
      show "\<not> test s (fst (rules ! k))" if "k < j" for k
        using Cons.prems(3)[of "Suc k"] that Suc by simp
    qed
    ultimately show ?thesis using r Suc by simp
  qed
qed

lemma first_match_none:
  "(\<And>k. k < length rules \<Longrightarrow> \<not> test s (fst (rules ! k))) \<Longrightarrow>
   first_match test rules dflt s = dflt"
proof (induction rules)
  case Nil
  then show ?case by simp
next
  case (Cons r rules)
  obtain lits cat where r: "r = (lits, cat)" by (cases r)
  from Cons.prems[of 0] r have "\<not> test s lits" by simp
  moreover have "first_match test rules dflt s = dflt"
  proof (rule Cons.IH)
    show "\<not> test s (fst (rules ! k))" if "k < length rules" for k
      using Cons.prems[of "Suc k"] that by simp
  qed
  ultimately show ?case using r by simp
qed

lemma first_match_range:
  "first_match test rules dflt s \<in> set (map snd rules @ [dflt])"
  by (induction test rules dflt s rule: first_match.induct) auto

lemma classify_cluster_table:
  "classify_cluster a = first_match startswith_any cluster_rules ''Other'' a"
  by (simp add: classify_cluster_def cluster_rules_def startswith_any_def)

lemma cluster_categories_rules: "map snd cluster_rules @ [''Other''] = cluster_categories"
  by (simp add: cluster_rules_def cluster_categories_def)

text \<open>
  C4: cluster classification is a total function into the ten categories; it is the
  first-match evaluation of the prefix rules in the priority order Transforms,
  LineTypePalette, GeometryEdit, SelectionOrdering, ProjectLifecycle, ViewportDisplay,
  HelpLinks, SecretBonus, LayerAdvanced: the category of an action is that of the first
  rule it satisfies, whatever later rules it satisfies too, and \<^verbatim>\<open>Other\<close> when it
  satisfies none.
\<close>

theorem classify_cluster_total_first_match:
  "classify_cluster a \<in> set cluster_categories
   \<and> length cluster_categories = 10 \<and> distinct cluster_categories
   \<and> map snd cluster_rules @ [''Other''] = cluster_categories
   \<and> classify_cluster a = first_match startswith_any cluster_rules ''Other'' a
   \<and> (\<forall>i < length cluster_rules.
        startswith_any a (fst (cluster_rules ! i))
        \<and> (\<forall>k < i. \<not> startswith_any a (fst (cluster_rules ! k)))
        \<longrightarrow> classify_cluster a = snd (cluster_rules ! i))
   \<and> ((\<forall>k < length cluster_rules. \<not> startswith_any a (fst (cluster_rules ! k)))
        \<longrightarrow> classify_cluster a = ''Other'')"
proof -
  have 1: "classify_cluster a \<in> set cluster_categories"
    using first_match_range[of startswith_any cluster_rules "''Other''" a]
    unfolding classify_cluster_table cluster_categories_rules .
  have 2: "length cluster_categories = 10" "distinct cluster_categories"
    by (simp_all add: cluster_categories_def)
  show ?thesis
    using 1 2 cluster_categories_rules classify_cluster_table
      first_match_least[of _ cluster_rules startswith_any a "''Other''"]
      first_match_none[of cluster_rules startswith_any a "''Other''"]
    by (simp only:) blast
qed

theorem classify_cluster_total_first_match_witness:
  "startswith_any ''actShowHideGrid'' (fst (cluster_rules ! 5))
   \<and> startswith_any ''actShowHideGrid'' (fst (cluster_rules ! 6))
   \<and> list_all (\<lambda>k. \<not> startswith_any ''actShowHideGrid'' (fst (cluster_rules ! k))) [0..<5]
   \<and> snd (cluster_rules ! 5) = ''ViewportDisplay''
   \<and> snd (cluster_rules ! 6) = ''HelpLinks''
   \<and> classify_cluster ''actShowHideGrid'' = ''ViewportDisplay''
   \<and> list_all (\<lambda>k. \<not> startswith_any ''actFoo'' (fst (cluster_rules ! k)))
        [0..<length cluster_rules]
   \<and> classify_cluster ''actFoo'' = ''Other''"
proof -
  have len: "length cluster_rules = 9" by (simp add: cluster_rules_def)
  have a: "startswith_any ''actShowHideGrid'' (fst (cluster_rules ! 5))"
    and b: "startswith_any ''actShowHideGrid'' (fst (cluster_rules ! 6))"
    and c: "snd (cluster_rules ! 5) = ''ViewportDisplay''"
    and d: "snd (cluster_rules ! 6) = ''HelpLinks''"
    by (simp_all add: cluster_rules_def startswith_any_def)
  have e: "\<forall>k < 5. \<not> startswith_any ''actShowHideGrid'' (fst (cluster_rules ! k))"
    by (simp add: eval_nat_numeral All_less_Suc cluster_rules_def startswith_any_def)
  have f: "\<forall>k < length cluster_rules. \<not> startswith_any ''actFoo'' (fst (cluster_rules ! k))"
    unfolding len
    by (simp add: eval_nat_numeral All_less_Suc cluster_rules_def startswith_any_def)
  have "\<forall>i < length cluster_rules.
        startswith_any ''actShowHideGrid'' (fst (cluster_rules ! i))
        \<and> (\<forall>k < i. \<not> startswith_any ''actShowHideGrid'' (fst (cluster_rules ! k)))
        \<longrightarrow> classify_cluster ''actShowHideGrid'' = snd (cluster_rules ! i)"
    using classify_cluster_total_first_match[of "''actShowHideGrid''"] by blast
  from this[rule_format, of 5] a e len
  have g: "classify_cluster ''actShowHideGrid'' = snd (cluster_rules ! 5)"
    by simp
  from classify_cluster_total_first_match[of "''actFoo''"] f
  have h: "classify_cluster ''actFoo'' = ''Other''"
    by blast
  from a b c d e f g h show ?thesis by (simp add: list_all_iff)
qed

lemma infer_control_kind_table:
  "infer_control_kind c = first_match startswith_any kind_rules ''other'' c"
  by (simp add: infer_control_kind_def kind_rules_def startswith_any_def)

lemma infer_control_domain_table:
  "infer_control_domain c = first_match contains_any domain_rules ''general'' (lower c)"
  by (simp add: infer_control_domain_def domain_rules_def contains_any_def Let_def)

lemma control_kinds_rules: "map snd kind_rules @ [''other''] = control_kinds"
  by (simp add: kind_rules_def control_kinds_def)

lemma control_domains_rules: "map snd domain_rules @ [''general''] = control_domains"
  by (simp add: domain_rules_def control_domains_def)

text \<open>
  C9: the control kind and the control domain classifiers are total functions into their
  closed category sets, with defaults \<^verbatim>\<open>other\<close> and \<^verbatim>\<open>general\<close>; each is the first-match
  evaluation of its rules in the fixed priority order; \<^verbatim>\<open>chkStitchAutoSave\<close> is a
  \<^verbatim>\<open>checkbox\<close> of domain \<^verbatim>\<open>stitching\<close>.
\<close>

theorem control_classifiers_total_first_match:
  "infer_control_kind c \<in> set control_kinds \<and> distinct control_kinds
   \<and> infer_control_domain c \<in> set control_domains \<and> distinct control_domains
   \<and> map snd kind_rules @ [''other''] = control_kinds
   \<and> map snd domain_rules @ [''general''] = control_domains
   \<and> infer_control_kind c = first_match startswith_any kind_rules ''other'' c
   \<and> infer_control_domain c = first_match contains_any domain_rules ''general'' (lower c)
   \<and> (\<forall>i < length kind_rules.
        startswith_any c (fst (kind_rules ! i))
        \<and> (\<forall>k < i. \<not> startswith_any c (fst (kind_rules ! k)))
        \<longrightarrow> infer_control_kind c = snd (kind_rules ! i))
   \<and> ((\<forall>k < length kind_rules. \<not> startswith_any c (fst (kind_rules ! k)))
        \<longrightarrow> infer_control_kind c = ''other'')
   \<and> (\<forall>i < length domain_rules.
        contains_any (lower c) (fst (domain_rules ! i))
        \<and> (\<forall>k < i. \<not> contains_any (lower c) (fst (domain_rules ! k)))
        \<longrightarrow> infer_control_domain c = snd (domain_rules ! i))
   \<and> ((\<forall>k < length domain_rules. \<not> contains_any (lower c) (fst (domain_rules ! k)))
        \<longrightarrow> infer_control_domain c = ''general'')
   \<and> infer_control_kind ''chkStitchAutoSave'' = ''checkbox''
   \<and> infer_control_domain ''chkStitchAutoSave'' = ''stitching''"
proof -
  have 1: "infer_control_kind c \<in> set control_kinds"
    using first_match_range[of startswith_any kind_rules "''other''" c]
    unfolding infer_control_kind_table control_kinds_rules .
  have 2: "infer_control_domain c \<in> set control_domains"
    using first_match_range[of contains_any domain_rules "''general''" "lower c"]
    unfolding infer_control_domain_table control_domains_rules .
  have 3: "distinct control_kinds" "distinct control_domains"
    by (simp_all add: control_kinds_def control_domains_def)
  have 4: "infer_control_kind ''chkStitchAutoSave'' = ''checkbox''"
    by code_simp
  have 5: "infer_control_domain ''chkStitchAutoSave'' = ''stitching''"
    by code_simp
  have 6: "\<forall>i < length kind_rules.
        startswith_any c (fst (kind_rules ! i))
        \<and> (\<forall>k < i. \<not> startswith_any c (fst (kind_rules ! k)))
        \<longrightarrow> infer_control_kind c = snd (kind_rules ! i)"
    using first_match_least[of _ kind_rules startswith_any c "''other''"]
    unfolding infer_control_kind_table by blast
  have 7: "(\<forall>k < length kind_rules. \<not> startswith_any c (fst (kind_rules ! k)))
        \<longrightarrow> infer_control_kind c = ''other''"
    using first_match_none[of kind_rules startswith_any c "''other''"]
    unfolding infer_control_kind_table by blast
  have 8: "\<forall>i < length domain_rules.
        contains_any (lower c) (fst (domain_rules ! i))
        \<and> (\<forall>k < i. \<not> contains_any (lower c) (fst (domain_rules ! k)))
        \<longrightarrow> infer_control_domain c = snd (domain_rules ! i)"
    using first_match_least[of _ domain_rules contains_any "lower c" "''general''"]
    unfolding infer_control_domain_table by blast
  have 9: "(\<forall>k < length domain_rules. \<not> contains_any (lower c) (fst (domain_rules ! k)))
        \<longrightarrow> infer_control_domain c = ''general''"
    using first_match_none[of domain_rules contains_any "lower c" "''general''"]
    unfolding infer_control_domain_table by blast
  from 1 2 3 4 5 6 7 8 9 control_kinds_rules control_domains_rules
    infer_control_kind_table infer_control_domain_table
  show ?thesis by (simp only: simp_thms)
qed

theorem control_classifiers_total_first_match_witness:
  "contains_any (lower ''chkStitchAutoSave'') (fst (domain_rules ! 0))
   \<and> contains_any (lower ''chkStitchAutoSave'') (fst (domain_rules ! 4))
   \<and> snd (domain_rules ! 0) = ''stitching'' \<and> snd (domain_rules ! 4) = ''options''
   \<and> infer_control_domain ''chkStitchAutoSave'' = snd (domain_rules ! 0)
   \<and> startswith_any ''chkStitchAutoSave'' (fst (kind_rules ! 0))
   \<and> infer_control_kind ''chkStitchAutoSave'' = snd (kind_rules ! 0)
   \<and> snd (kind_rules ! 0) = ''checkbox''
   \<and> list_all (\<lambda>k. \<not> startswith_any ''Panel1'' (fst (kind_rules ! k))) [0..<length kind_rules]
   \<and> infer_control_kind ''Panel1'' = ''other''
   \<and> list_all (\<lambda>k. \<not> contains_any (lower ''Panel1'') (fst (domain_rules ! k)))
        [0..<length domain_rules]
   \<and> infer_control_domain ''Panel1'' = ''general''"
proof -
  have lk: "length kind_rules = 11" by (simp add: kind_rules_def)
  have ld: "length domain_rules = 6" by (simp add: domain_rules_def)
  have low: "lower ''chkStitchAutoSave'' = ''chkstitchautosave''" by code_simp
  have low2: "lower ''Panel1'' = ''panel1''" by code_simp
  have a: "contains_any (lower ''chkStitchAutoSave'') (fst (domain_rules ! 0))"
    and b: "contains_any (lower ''chkStitchAutoSave'') (fst (domain_rules ! 4))"
    unfolding low by code_simp+
  have c: "snd (domain_rules ! 0) = ''stitching''" "snd (domain_rules ! 4) = ''options''"
    "snd (kind_rules ! 0) = ''checkbox''"
    by (simp_all add: domain_rules_def kind_rules_def)
  have d: "startswith_any ''chkStitchAutoSave'' (fst (kind_rules ! 0))"
    by (simp add: kind_rules_def startswith_any_def)
  have e: "\<forall>k < length kind_rules. \<not> startswith_any ''Panel1'' (fst (kind_rules ! k))"
    unfolding lk
    by (simp add: eval_nat_numeral All_less_Suc kind_rules_def startswith_any_def)
  have f: "\<forall>k < length domain_rules. \<not> contains_any (lower ''Panel1'') (fst (domain_rules ! k))"
    unfolding ld low2
    by (simp add: eval_nat_numeral All_less_Suc domain_rules_def contains_any_def
        sublist_Cons_right)
  note t1 = control_classifiers_total_first_match[of "''chkStitchAutoSave''"]
  note t2 = control_classifiers_total_first_match[of "''Panel1''"]
  have "\<forall>i < length domain_rules.
        contains_any (lower ''chkStitchAutoSave'') (fst (domain_rules ! i))
        \<and> (\<forall>k < i. \<not> contains_any (lower ''chkStitchAutoSave'') (fst (domain_rules ! k)))
        \<longrightarrow> infer_control_domain ''chkStitchAutoSave'' = snd (domain_rules ! i)"
    using t1 by blast
  from this[rule_format, of 0] a ld
  have g: "infer_control_domain ''chkStitchAutoSave'' = snd (domain_rules ! 0)"
    by simp
  have "\<forall>i < length kind_rules.
        startswith_any ''chkStitchAutoSave'' (fst (kind_rules ! i))
        \<and> (\<forall>k < i. \<not> startswith_any ''chkStitchAutoSave'' (fst (kind_rules ! k)))
        \<longrightarrow> infer_control_kind ''chkStitchAutoSave'' = snd (kind_rules ! i)"
    using t1 by blast
  from this[rule_format, of 0] d lk
  have h: "infer_control_kind ''chkStitchAutoSave'' = snd (kind_rules ! 0)"
    by simp
  from t2 e have i: "infer_control_kind ''Panel1'' = ''other''" by blast
  from t2 f have j: "infer_control_domain ''Panel1'' = ''general''" by blast
  from a b c d e f g h i j show ?thesis by (simp add: list_all_iff)
qed

section \<open>Properties of the section parser\<close>

lemma parse_form_sections_finish:
  "parse_form_sections ls = finish (foldl parse_line ([], None, None) ls)"
  by (simp add: parse_form_sections_def finish_def)

lemma parse_line_header:
  "header_of l = Some g \<Longrightarrow>
   parse_line (fs, current, mode) l =
     (finish (fs, current, mode),
      Some \<lparr>resource_file = strip (fst g), form_name = strip (snd g), actions = [], controls = []\<rparr>,
      None)"
  by (cases g) (simp add: parse_line_def header_of_def finish_def Let_def)

lemma parse_line_no_header_names:
  "header_of l = None \<Longrightarrow>
   map section_names (finish (parse_line st l)) = map section_names (finish st)"
  by (cases st)
     (auto simp: parse_line_def header_of_def finish_def Let_def section_names_def
           split: option.splits)

lemma parse_line_outside:
  "header_of l = None \<Longrightarrow> parse_line (fs, None, mode) l = (fs, None, mode)"
  by (simp add: parse_line_def header_of_def Let_def)

lemma strip_Nil_iff: "strip s = [] \<longleftrightarrow> (\<forall>c \<in> set s. is_space c)"
proof
  assume "strip s = []"
  then have a: "\<forall>c \<in> set (dropWhile is_space s). is_space c"
    by (simp add: strip_def dropWhile_eq_Nil_conv)
  have "dropWhile is_space s = []"
  proof (rule ccontr)
    assume n: "dropWhile is_space s \<noteq> []"
    then have "\<not> is_space (hd (dropWhile is_space s))" by (rule hd_dropWhile)
    moreover from n have "hd (dropWhile is_space s) \<in> set (dropWhile is_space s)"
      by (rule hd_in_set)
    ultimately show False using a by blast
  qed
  then show "\<forall>c \<in> set s. is_space c" by (simp add: dropWhile_eq_Nil_conv)
next
  assume "\<forall>c \<in> set s. is_space c"
  then have "dropWhile is_space s = []" by (simp add: dropWhile_eq_Nil_conv)
  then show "strip s = []" unfolding strip_def by (simp only: rev.simps dropWhile.simps)
qed

lemma blank_no_prefix:
  assumes "strip s = []" and "p \<noteq> []" and "\<not> is_space (hd p)"
  shows "\<not> prefix p s"
proof
  assume "prefix p s"
  then obtain r where "s = p @ r" by (auto simp: prefix_def)
  with assms(2) have "hd p \<in> set s" by (cases p) auto
  with assms(1,3) show False by (simp add: strip_Nil_iff)
qed

lemma header_match_prefix: "header_match s \<noteq> None \<Longrightarrow> prefix ''==='' s"
  by (auto simp: header_match_def literal_def split: if_splits)

lemma parse_line_blank:
  assumes "is_blank l"
  shows "parse_line st l = st"
proof -
  let ?line = "rstrip_newline l"
  from assms have b: "strip ?line = []" by (simp add: is_blank_def)
  have "\<not> prefix ''==='' ?line"
    by (rule blank_no_prefix[OF b]) (simp_all add: is_space_def)
  then have h: "header_match ?line = None" using header_match_prefix by blast
  have a: "\<not> prefix ''Actions ('' ?line"
    by (rule blank_no_prefix[OF b]) (simp_all add: is_space_def)
  have c: "\<not> prefix ''Controls ('' ?line"
    by (rule blank_no_prefix[OF b]) (simp_all add: is_space_def)
  obtain fs current mode where st: "st = (fs, current, mode)" by (cases st)
  show ?thesis
    unfolding st using h a b c by (simp add: parse_line_def Let_def split: option.splits)
qed

lemma parse_line_forms_append:
  "parse_line (F @ fs, current, mode) l =
     (case parse_line (fs, current, mode) l of (fs', st') \<Rightarrow> (F @ fs', st'))"
  by (simp add: parse_line_def Let_def split: option.splits)

lemma foldl_parse_line_forms_append:
  "foldl parse_line (F @ fs, current, mode) ls =
     (case foldl parse_line (fs, current, mode) ls of (fs', st') \<Rightarrow> (F @ fs', st'))"
proof (induction ls arbitrary: fs current mode)
  case Nil
  then show ?case by simp
next
  case (Cons l ls)
  obtain fs' current' mode' where
    p: "parse_line (fs, current, mode) l = (fs', current', mode')"
    by (cases "parse_line (fs, current, mode) l")
  then have "parse_line (F @ fs, current, mode) l = (F @ fs', current', mode')"
    by (simp add: parse_line_forms_append)
  with p Cons.IH[of fs' current' mode'] show ?case by simp
qed

lemma finish_forms_append:
  "finish (F @ fs, current, mode) = F @ finish (fs, current, mode)"
  by (simp add: finish_def split: option.splits)

lemma finish_foldl_from:
  "finish (foldl parse_line (fs, current, mode) ls) =
     fs @ finish (foldl parse_line ([], current, mode) ls)"
proof -
  obtain fs' current' mode' where
    p: "foldl parse_line ([], current, mode) ls = (fs', current', mode')"
    by (cases "foldl parse_line ([], current, mode) ls")
  with foldl_parse_line_forms_append[of fs "[]" current mode ls]
  show ?thesis by (simp add: finish_forms_append[of fs fs', simplified, symmetric] finish_def split: option.splits)
qed

lemma parse_split_at_header:
  assumes "header_of h \<noteq> None"
  shows "parse_form_sections (pre @ h # post) =
           parse_form_sections pre @ parse_form_sections (h # post)"
proof -
  from assms obtain g where g: "header_of h = Some g" by auto
  let ?new = "Some \<lparr>resource_file = strip (fst g), form_name = strip (snd g),
                     actions = [], controls = []\<rparr>"
  obtain fs current mode where
    pre: "foldl parse_line ([], None, None) pre = (fs, current, mode)"
    by (cases "foldl parse_line ([], None, None) pre")
  have "parse_form_sections (pre @ h # post) =
          finish (foldl parse_line (finish (fs, current, mode), ?new, None) post)"
    by (simp add: parse_form_sections_finish pre parse_line_header[OF g])
  also have "\<dots> = finish (fs, current, mode) @ finish (foldl parse_line ([], ?new, None) post)"
    by (rule finish_foldl_from)
  also have "finish (fs, current, mode) = parse_form_sections pre"
    by (simp add: parse_form_sections_finish pre)
  also have "finish (foldl parse_line ([], ?new, None) post) = parse_form_sections (h # post)"
    by (simp add: parse_form_sections_finish parse_line_header[OF g] finish_def)
  finally show ?thesis .
qed

lemma names_finish_foldl:
  "map section_names (finish (foldl parse_line st ls)) =
     map section_names (finish st) @ map header_names (List.map_filter header_of ls)"
proof (induction ls arbitrary: st)
  case Nil
  then show ?case by (simp add: map_filter_simps)
next
  case (Cons l ls)
  obtain fs current mode where st: "st = (fs, current, mode)" by (cases st)
  show ?case
  proof (cases "header_of l")
    case None
    then show ?thesis
      using Cons.IH[of "parse_line st l"] parse_line_no_header_names[OF None, of st]
      by (simp add: map_filter_simps)
  next
    case (Some g)
    have "map section_names (finish (parse_line st l)) =
            map section_names (finish st) @ [header_names g]"
      unfolding st parse_line_header[OF Some]
      by (simp add: finish_def section_names_def header_names_def split: option.splits)
    then show ?thesis
      using Cons.IH[of "parse_line st l"] Some by (simp add: map_filter_simps)
  qed
qed

lemma foldl_parse_line_outside:
  "\<forall>l \<in> set pre. header_of l = None \<Longrightarrow>
   foldl parse_line (fs, None, mode) pre = (fs, None, mode)"
  by (induction pre) (simp_all add: parse_line_outside)

lemma foldl_parse_line_blank:
  "foldl parse_line st (filter (\<lambda>l. \<not> is_blank l) ls) = foldl parse_line st ls"
  by (induction ls arbitrary: st) (simp_all add: parse_line_blank)

text \<open>
  C7: for every sequence of raw lines the parser yields exactly one section per header
  line, in file order, named by the trimmed groups of its header. A header line closes the
  section accumulated so far and opens a new one, so the result splits at every header
  line. Blank lines are ignored, and so are the lines before the first header. At the end
  of the input the section in progress, if any, is appended to the result.
\<close>

theorem parse_form_sections_one_per_header:
  "map section_names (parse_form_sections ls) = map header_names (List.map_filter header_of ls)
   \<and> length (parse_form_sections ls) = length (filter (\<lambda>l. header_of l \<noteq> None) ls)
   \<and> (header_of h \<noteq> None \<longrightarrow>
        parse_form_sections (pre @ h # post)
          = parse_form_sections pre @ parse_form_sections (h # post))
   \<and> parse_form_sections (filter (\<lambda>l. \<not> is_blank l) ls) = parse_form_sections ls
   \<and> ((\<forall>l \<in> set pre. header_of l = None) \<longrightarrow>
        parse_form_sections (pre @ ls) = parse_form_sections ls)
   \<and> parse_form_sections ls = finish (foldl parse_line ([], None, None) ls)"
proof -
  have 1: "map section_names (parse_form_sections ls)
             = map header_names (List.map_filter header_of ls)"
    using names_finish_foldl[of "([], None, None)" ls]
    by (simp add: parse_form_sections_finish finish_def)
  have "length (parse_form_sections ls) = length (map section_names (parse_form_sections ls))"
    by simp
  also have "\<dots> = length (List.map_filter header_of ls)" unfolding 1 by simp
  also have "\<dots> = length (filter (\<lambda>l. header_of l \<noteq> None) ls)"
    by (simp add: List.map_filter_def)
  finally have 2: "length (parse_form_sections ls)
                     = length (filter (\<lambda>l. header_of l \<noteq> None) ls)" .
  have 3: "parse_form_sections (filter (\<lambda>l. \<not> is_blank l) ls) = parse_form_sections ls"
    by (simp add: parse_form_sections_def foldl_parse_line_blank)
  have 4: "(\<forall>l \<in> set pre. header_of l = None) \<longrightarrow>
        parse_form_sections (pre @ ls) = parse_form_sections ls"
    by (simp add: parse_form_sections_def foldl_parse_line_outside)
  from 1 2 3 4 parse_split_at_header[of h pre post] parse_form_sections_finish[of ls]
  show ?thesis by (simp only: simp_thms) blast
qed

section \<open>Properties of the ticket reconciler\<close>

lemma foldl_add_ticket_row_dom:
  "dom (foldl add_ticket_row m rows) =
     dom m \<union> {row_action r | r. r \<in> set rows \<and> row_action r \<noteq> []}"
  by (induction rows arbitrary: m) (auto simp: add_ticket_row_def Let_def)

lemma foldl_add_ticket_row_skip:
  "\<forall>r \<in> set post. row_action r \<noteq> k \<Longrightarrow> foldl add_ticket_row m post k = m k"
  by (induction post arbitrary: m) (auto simp: add_ticket_row_def Let_def)

lemma foldl_add_ticket_row_from:
  "foldl add_ticket_row m rows k = Some r \<Longrightarrow>
   m k = Some r \<or> (r \<in> set rows \<and> row_action r = k)"
proof (induction rows arbitrary: m)
  case Nil
  then show ?case by simp
next
  case (Cons a rows)
  from Cons.IH[OF Cons.prems[simplified]] show ?case
    by (auto simp: add_ticket_row_def Let_def split: if_splits)
qed

text \<open>
  C8: the loaded mapping is keyed by the trimmed action column: its keys are the trimmed
  action fields that are not blank, so a row whose action field is blank after trimming
  is skipped; every entry is a row of the input, stored under its own trimmed action; and
  of the rows that share a key, the last one is the entry.
\<close>

theorem load_action_ticket_map_last_wins:
  "dom (load_action_ticket_map rows) = {row_action r | r. r \<in> set rows \<and> row_action r \<noteq> []}
   \<and> [] \<notin> dom (load_action_ticket_map rows)
   \<and> (\<forall>k r. load_action_ticket_map rows k = Some r \<longrightarrow> r \<in> set rows \<and> row_action r = k)
   \<and> (\<forall>pre r post.
         rows = pre @ r # post \<and> row_action r \<noteq> []
         \<and> (\<forall>r' \<in> set post. row_action r' \<noteq> row_action r)
         \<longrightarrow> load_action_ticket_map rows (row_action r) = Some r)"
proof -
  have 1: "dom (load_action_ticket_map rows)
             = {row_action r | r. r \<in> set rows \<and> row_action r \<noteq> []}"
    by (simp add: load_action_ticket_map_def foldl_add_ticket_row_dom)
  then have 2: "[] \<notin> dom (load_action_ticket_map rows)" by auto
  have 3: "\<forall>k r. load_action_ticket_map rows k = Some r \<longrightarrow> r \<in> set rows \<and> row_action r = k"
    using foldl_add_ticket_row_from[of Map.empty rows]
    by (auto simp: load_action_ticket_map_def)
  have 4: "load_action_ticket_map rows (row_action r) = Some r"
    if "rows = pre @ r # post" "row_action r \<noteq> []"
      "\<forall>r' \<in> set post. row_action r' \<noteq> row_action r" for pre r post
    using that
    by (simp add: load_action_ticket_map_def foldl_add_ticket_row_skip add_ticket_row_def)
  from 1 2 3 4 show ?thesis by blast
qed

section \<open>Properties of the action matrix\<close>

lemma foldl_add_action_pairs:
  "foldl (add_action fname) acc as = foldl add_pair acc (map (\<lambda>a. (a, fname)) as)"
  by (induction as arbitrary: acc) (simp_all add: add_pair_def)

lemma foldl_add_form_pairs:
  "foldl add_form acc fs = foldl add_pair acc (observed fs)"
proof (induction fs arbitrary: acc)
  case Nil
  then show ?case by (simp add: observed_def)
next
  case (Cons f fs)
  have "observed (f # fs) =
          (if form_name f \<in> source_form_names
           then map (\<lambda>a. (a, form_name f)) (actions f) else []) @ observed fs"
    by (simp add: observed_def)
  then show ?case
    using Cons.IH by (simp add: add_form_def foldl_add_action_pairs)
qed

lemma collect_actions_pairs: "collect_actions fs = foldl add_pair [] (observed fs)"
  by (simp add: collect_actions_def foldl_add_form_pairs)

lemma add_pair_noise: "\<not> is_action (fst p) \<Longrightarrow> add_pair acc p = acc"
  by (simp add: add_pair_def add_action_def is_action_def Let_def)

lemma foldl_add_pair_filter:
  "foldl add_pair acc (filter (\<lambda>p. is_action (fst p)) ps) = foldl add_pair acc ps"
  by (induction ps arbitrary: acc) (simp_all add: add_pair_noise)

lemma add_pair_distinct:
  "distinct (map fst acc) \<Longrightarrow> distinct (map fst (add_pair acc p))"
  by (simp add: add_pair_def add_action_def Let_def distinct_update)

lemma foldl_add_pair_distinct:
  "distinct (map fst acc) \<Longrightarrow> distinct (map fst (foldl add_pair acc ps))"
  by (induction ps arbitrary: acc) (simp_all add: add_pair_distinct)

lemma collect_actions_distinct: "distinct (map fst (collect_actions fs))"
  by (simp add: collect_actions_pairs foldl_add_pair_distinct)

text \<open>The dictionary after the raw actions \<open>ps\<close>, as a map.\<close>

lemma map_of_foldl_add_pair:
  "map_of (foldl add_pair [] ps) c =
     (if \<exists>p \<in> set ps. is_action (fst p) \<and> canonicalize_action (fst p) = c
      then Some (fst ` set (filter (\<lambda>p. canonicalize_action (fst p) = c) ps),
                 snd ` set (filter (\<lambda>p. canonicalize_action (fst p) = c) ps))
      else None)"
proof (induction ps rule: rev_induct)
  case Nil
  then show ?case by simp
next
  case (snoc p ps)
  let ?acc = "foldl add_pair [] ps"
  let ?k = "canonicalize_action (fst p)"
  let ?hit = "\<lambda>qs. \<exists>q \<in> set qs. is_action (fst q) \<and> canonicalize_action (fst q) = c"
  show ?case
  proof (cases "is_action (fst p)")
    case False
    have eq: "foldl add_pair [] (ps @ [p]) = ?acc" using False by (simp add: add_pair_noise)
    show ?thesis
    proof (cases "?hit ps")
      case True
      then have "?k \<noteq> c" using False by (auto simp: is_action_def)
      moreover from True have "?hit (ps @ [p])" by auto
      ultimately show ?thesis unfolding eq using snoc.IH True by simp
    next
      case nohit: False
      with False have "\<not> ?hit (ps @ [p])" by auto
      then show ?thesis unfolding eq using snoc.IH nohit by simp
    qed
  next
    case True
    have upd: "map_of (foldl add_pair [] (ps @ [p])) =
            (map_of ?acc)(?k \<mapsto>
               (insert (fst p) (fst (case map_of ?acc ?k of Some it \<Rightarrow> it | None \<Rightarrow> ({}, {}))),
                insert (snd p) (snd (case map_of ?acc ?k of Some it \<Rightarrow> it | None \<Rightarrow> ({}, {})))))"
      using True
      by (simp add: add_pair_def add_action_def is_action_def Let_def update_conv')
    show ?thesis
    proof (cases "?k = c")
      case False
      then have "?hit (ps @ [p]) \<longleftrightarrow> ?hit ps" by auto
      then show ?thesis unfolding upd using snoc.IH False by simp
    next
      case kc: True
      have act: "is_action (fst q)" if "canonicalize_action (fst q) = c" for q
        using True kc that by (simp add: is_action_def)
      have hit: "?hit (ps @ [p])" using True kc by simp
      show ?thesis
      proof (cases "?hit ps")
        case True
        with snoc.IH have
          "map_of ?acc c = Some (fst ` set (filter (\<lambda>p. canonicalize_action (fst p) = c) ps),
                 snd ` set (filter (\<lambda>p. canonicalize_action (fst p) = c) ps))"
          by simp
        then show ?thesis unfolding upd using kc hit by simp
      next
        case False
        with act have empty: "filter (\<lambda>p. canonicalize_action (fst p) = c) ps = []"
          by (auto simp: filter_empty_conv)
        from False snoc.IH have "map_of ?acc c = None" by simp
        then show ?thesis unfolding upd using kc hit empty by simp
      qed
    qed
  qed
qed

lemma map_of_collect_actions:
  "map_of (collect_actions fs) c =
     (if c \<in> canonical_set fs then Some (alias_set fs c, form_set fs c) else None)"
proof -
  have 1: "(\<exists>p \<in> set (observed fs). is_action (fst p) \<and> canonicalize_action (fst p) = c)
             \<longleftrightarrow> c \<in> canonical_set fs"
    by (force simp: canonical_set_def) 
  have 2: "fst ` set (filter (\<lambda>p. canonicalize_action (fst p) = c) (observed fs))
             = alias_set fs c"
    by (force simp: alias_set_def)
  have 3: "snd ` set (filter (\<lambda>p. canonicalize_action (fst p) = c) (observed fs))
             = form_set fs c"
    by (force simp: form_set_def)
  show ?thesis
    unfolding collect_actions_pairs map_of_foldl_add_pair 1 2 3 ..
qed

lemma keys_collect_actions: "set (map fst (collect_actions fs)) = canonical_set fs"
proof -
  have "set (map fst (collect_actions fs)) = dom (map_of (collect_actions fs))"
    by (simp add: dom_map_of_conv_image_fst)
  also have "\<dots> = canonical_set fs"
    by (auto simp: map_of_collect_actions split: if_splits)
  finally show ?thesis .
qed

lemma finite_alias_set: "finite (alias_set fs c)"
proof -
  have "alias_set fs c \<subseteq> fst ` set (observed fs)"
    by (force simp: alias_set_def)
  then show ?thesis by (rule finite_subset) simp
qed

lemma finite_form_set: "finite (form_set fs c)"
proof -
  have "form_set fs c \<subseteq> snd ` set (observed fs)"
    by (force simp: form_set_def)
  then show ?thesis by (rule finite_subset) simp
qed

lemma item_of_collect_actions:
  "c \<in> canonical_set fs \<Longrightarrow>
   item_of (collect_actions fs) c = (alias_set fs c, form_set fs c)"
  by (simp add: item_of_def map_of_collect_actions)

lemma set_aliases_of:
  "c \<in> canonical_set fs \<Longrightarrow> set (aliases_of (collect_actions fs) c) = alias_set fs c"
  by (simp add: aliases_of_def item_of_collect_actions finite_alias_set)

lemma set_forms_for_action_of:
  "c \<in> canonical_set fs \<Longrightarrow>
   set (forms_for_action_of (collect_actions fs) c) = form_set fs c"
  by (simp add: forms_for_action_of_def item_of_collect_actions finite_form_set)

lemma action_make_row [simp]: "action (make_row by_action tm c) = c"
  by (simp add: make_row_def Let_def split: option.splits)

lemma aliases_make_row [simp]:
  "aliases (make_row by_action tm c) = join '';'' (aliases_of by_action c)"
  by (simp add: make_row_def Let_def split: option.splits)

lemma source_forms_make_row [simp]:
  "source_forms (make_row by_action tm c) = join '';'' (forms_for_action_of by_action c)"
  by (simp add: make_row_def Let_def split: option.splits)

lemma map_action_build_action_matrix:
  "map action (build_action_matrix fs tm) = sort (map fst (collect_actions fs))"
  by (simp add: build_action_matrix_def Let_def comp_def)

lemma row_in_build_action_matrix:
  assumes "r \<in> set (build_action_matrix fs tm)"
  shows "r = make_row (collect_actions fs) tm (action r)"
    and "action r \<in> canonical_set fs"
proof -
  from assms obtain c where c: "c \<in> set (map fst (collect_actions fs))"
    and r: "r = make_row (collect_actions fs) tm c"
    by (auto simp: build_action_matrix_def Let_def)
  from r show "r = make_row (collect_actions fs) tm (action r)" by simp
  from c r show "action r \<in> canonical_set fs"
    unfolding keys_collect_actions by simp
qed

lemma first_alias_match_hit:
  "i < length al \<Longrightarrow> tm (al ! i) = Some e \<Longrightarrow> (\<And>j. j < i \<Longrightarrow> tm (al ! j) = None) \<Longrightarrow>
   first_alias_match tm al = Some e"
proof (induction al arbitrary: i)
  case Nil
  then show ?case by simp
next
  case (Cons a al)
  show ?case
  proof (cases i)
    case 0
    with Cons.prems show ?thesis by simp
  next
    case (Suc k)
    from Cons.prems(3)[of 0] Suc have "tm a = None" by simp
    moreover have "first_alias_match tm al = Some e"
    proof (rule Cons.IH)
      show "k < length al" using Cons.prems(1) Suc by simp
      show "tm (al ! k) = Some e" using Cons.prems(2) Suc by simp
      show "tm (al ! j) = None" if "j < k" for j
        using Cons.prems(3)[of "Suc j"] that Suc by simp
    qed
    ultimately show ?thesis by simp
  qed
qed

lemma first_alias_match_none:
  "\<forall>a \<in> set al. tm a = None \<Longrightarrow> first_alias_match tm al = None"
  by (induction al) simp_all

lemma carries_make_row:
  "reconcile tm c (aliases_of by_action c) = Some e \<Longrightarrow> carries (make_row by_action tm c) e"
  by (simp add: make_row_def carries_def Let_def)

lemma unmapped_make_row:
  "reconcile tm c (aliases_of by_action c) = None \<Longrightarrow>
   status (make_row by_action tm c) = ''unmapped''
   \<and> mapped_ticket (make_row by_action tm c) = Some []
   \<and> feature_group (make_row by_action tm c) = Some []
   \<and> phase (make_row by_action tm c) = Some []"
  by (simp add: make_row_def Let_def)

text \<open>
  C3: for every row of the action matrix: when the canonical action is a key of the ticket
  map, the row carries that entry's \<^verbatim>\<open>ticket_id\<close>, \<^verbatim>\<open>feature_group\<close> and \<^verbatim>\<open>phase\<close> with status
  \<^verbatim>\<open>mapped\<close>; when it is not a key, the row carries the fields of the entry of the first
  alias, in ascending order, that is a key, with status \<^verbatim>\<open>mapped\<close>; when neither the
  canonical action nor any alias is a key, the status is \<^verbatim>\<open>unmapped\<close> and the three ticket
  fields are the empty string. The fields of an entry are carried as they are, a \<^verbatim>\<open>None\<close>
  of a short CSV row included. The aliases of the row are the sorted raw actions in scope
  that canonicalize to its action.
\<close>

theorem build_action_matrix_reconciliation:
  assumes "r \<in> set (build_action_matrix fs tm)"
  shows "(\<forall>e. tm (action r) = Some e \<longrightarrow> carries r e)
       \<and> (tm (action r) = None \<longrightarrow>
            (\<forall>i e. i < length (aliases_of (collect_actions fs) (action r))
                   \<and> tm (aliases_of (collect_actions fs) (action r) ! i) = Some e
                   \<and> (\<forall>j < i. tm (aliases_of (collect_actions fs) (action r) ! j) = None)
                   \<longrightarrow> carries r e))
       \<and> (tm (action r) = None
            \<and> (\<forall>a \<in> set (aliases_of (collect_actions fs) (action r)). tm a = None)
            \<longrightarrow> status r = ''unmapped'' \<and> mapped_ticket r = Some []
                \<and> feature_group r = Some [] \<and> phase r = Some [])
       \<and> aliases r = join '';'' (aliases_of (collect_actions fs) (action r))
       \<and> sorted (aliases_of (collect_actions fs) (action r))
       \<and> set (aliases_of (collect_actions fs) (action r)) = alias_set fs (action r)"
proof -
  let ?by = "collect_actions fs"
  let ?c = "action r"
  let ?al = "aliases_of ?by ?c"
  note r = row_in_build_action_matrix[OF assms]
  have 1: "carries r e" if "tm ?c = Some e" for e
  proof -
    from that have "reconcile tm ?c ?al = Some e" by (simp add: reconcile_def)
    from carries_make_row[OF this] r(1) show ?thesis by simp
  qed
  have 2: "carries r e"
    if "tm ?c = None" "i < length ?al" "tm (?al ! i) = Some e" "\<forall>j < i. tm (?al ! j) = None"
    for i e
  proof -
    from that have "reconcile tm ?c ?al = Some e"
      by (simp add: reconcile_def first_alias_match_hit)
    from carries_make_row[OF this] r(1) show ?thesis by simp
  qed
  have 3: "status r = ''unmapped'' \<and> mapped_ticket r = Some []
             \<and> feature_group r = Some [] \<and> phase r = Some []"
    if "tm ?c = None" "\<forall>a \<in> set ?al. tm a = None"
  proof -
    from that have "reconcile tm ?c ?al = None"
      by (simp add: reconcile_def first_alias_match_none)
    from unmapped_make_row[OF this] r(1) show ?thesis by simp
  qed
  have 4: "aliases r = join '';'' ?al"
    using r(1) aliases_make_row[of ?by tm ?c] by simp
  have 5: "sorted ?al" by (simp add: aliases_of_def)
  have 6: "set ?al = alias_set fs ?c" using r(2) by (rule set_aliases_of)
  from 1 2 3 4 5 6 show ?thesis by blast
qed

lemma observed_filter:
  "observed (filter (\<lambda>f. form_name f \<in> source_form_names) fs) = observed fs"
  by (simp add: observed_def)

lemma observed_drop_noise:
  "observed (map drop_noise fs) = filter (\<lambda>p. is_action (fst p)) (observed fs)"
  by (induction fs) (simp_all add: observed_def drop_noise_def filter_map comp_def)

lemma observed_out_of_scope:
  "\<forall>f \<in> set fs. form_name f \<notin> source_form_names \<Longrightarrow> observed fs = []"
  by (induction fs) (simp_all add: observed_def)

lemma form_set_in_scope: "form_set fs c \<subseteq> source_form_names"
  by (auto simp: form_set_def observed_def)

lemma build_action_matrix_cong:
  "collect_actions fs = collect_actions fs' \<Longrightarrow>
   build_action_matrix fs tm = build_action_matrix fs' tm"
  by (simp add: build_action_matrix_def)

text \<open>
  C5: the action matrix only draws on the forms whose name is \<^verbatim>\<open>TfrmLeat\<close> or
  \<^verbatim>\<open>TfrmLeat_Macintosh\<close>: dropping every other form from the input leaves the matrix
  unchanged, and an input without such a form gives no row. A raw action whose canonical
  form does not start with \<^verbatim>\<open>act\<close> contributes nothing: dropping these raw actions leaves
  the matrix unchanged, every row has an action that starts with \<^verbatim>\<open>act\<close>, and the actions,
  aliases and form names of the rows are exactly those of the raw actions in scope.
\<close>

theorem build_action_matrix_scope:
  "build_action_matrix fs tm
     = build_action_matrix (filter (\<lambda>f. form_name f \<in> source_form_names) fs) tm
   \<and> build_action_matrix fs tm = build_action_matrix (map drop_noise fs) tm
   \<and> set (map action (build_action_matrix fs tm)) = canonical_set fs
   \<and> (\<forall>r \<in> set (build_action_matrix fs tm).
        prefix ''act'' (action r)
        \<and> set (aliases_of (collect_actions fs) (action r)) = alias_set fs (action r)
        \<and> set (forms_for_action_of (collect_actions fs) (action r)) = form_set fs (action r)
        \<and> form_set fs (action r) \<subseteq> source_form_names)
   \<and> ((\<forall>f \<in> set fs. form_name f \<notin> source_form_names)
        \<longrightarrow> build_action_matrix fs tm = [])"
proof -
  have 1: "build_action_matrix fs tm
     = build_action_matrix (filter (\<lambda>f. form_name f \<in> source_form_names) fs) tm"
    by (rule build_action_matrix_cong) (simp add: collect_actions_pairs observed_filter)
  have 2: "build_action_matrix fs tm = build_action_matrix (map drop_noise fs) tm"
    by (rule build_action_matrix_cong)
       (simp add: collect_actions_pairs observed_drop_noise foldl_add_pair_filter)
  have 3: "set (map action (build_action_matrix fs tm)) = canonical_set fs"
    by (simp add: map_action_build_action_matrix keys_collect_actions[symmetric])
  have 4: "prefix ''act'' (action r)
        \<and> set (aliases_of (collect_actions fs) (action r)) = alias_set fs (action r)
        \<and> set (forms_for_action_of (collect_actions fs) (action r)) = form_set fs (action r)
        \<and> form_set fs (action r) \<subseteq> source_form_names"
    if "r \<in> set (build_action_matrix fs tm)" for r
  proof -
    from row_in_build_action_matrix(2)[OF that] have c: "action r \<in> canonical_set fs" .
    then have "prefix ''act'' (action r)" by (auto simp: canonical_set_def is_action_def)
    with c show ?thesis
      by (simp add: set_aliases_of set_forms_for_action_of form_set_in_scope)
  qed
  have 5: "build_action_matrix fs tm = []"
    if "\<forall>f \<in> set fs. form_name f \<notin> source_form_names"
    using observed_out_of_scope[OF that]
    by (simp add: build_action_matrix_def collect_actions_pairs)
  from 1 2 3 4 5 show ?thesis by (simp only: simp_thms) blast
qed

text \<open>
  C6: whatever the order and the duplicates of the parsed action lists, the rows of the
  action matrix are sorted ascending by canonical action, each canonical action occurs
  once, and in every row the alias list and the form-name list, joined by semicolons into
  the fields \<^verbatim>\<open>aliases\<close> and \<^verbatim>\<open>source_forms\<close>, are sorted ascending and without duplicates.
\<close>

theorem build_action_matrix_sorted_unique:
  "sorted (map action (build_action_matrix fs tm))
   \<and> distinct (map action (build_action_matrix fs tm))
   \<and> (\<forall>r \<in> set (build_action_matrix fs tm).
        aliases r = join '';'' (aliases_of (collect_actions fs) (action r))
        \<and> sorted (aliases_of (collect_actions fs) (action r))
        \<and> distinct (aliases_of (collect_actions fs) (action r))
        \<and> source_forms r = join '';'' (forms_for_action_of (collect_actions fs) (action r))
        \<and> sorted (forms_for_action_of (collect_actions fs) (action r))
        \<and> distinct (forms_for_action_of (collect_actions fs) (action r)))"
proof -
  have 1: "sorted (map action (build_action_matrix fs tm))"
    by (simp add: map_action_build_action_matrix)
  have 2: "distinct (map action (build_action_matrix fs tm))"
    by (simp add: map_action_build_action_matrix collect_actions_distinct)
  have 3: "aliases r = join '';'' (aliases_of (collect_actions fs) (action r))
        \<and> source_forms r = join '';'' (forms_for_action_of (collect_actions fs) (action r))"
    if "r \<in> set (build_action_matrix fs tm)" for r
    using row_in_build_action_matrix(1)[OF that]
      aliases_make_row[of "collect_actions fs" tm "action r"]
      source_forms_make_row[of "collect_actions fs" tm "action r"]
    by simp
  from 1 2 3 show ?thesis by (simp add: aliases_of_def forms_for_action_of_def)
qed

section \<open>Properties of the form schema\<close>

lemma sum_update:
  "sum_list (map snd (AList.update k v al)) =
     sum_list (map snd al) + v - (case map_of al k of Some n \<Rightarrow> n | None \<Rightarrow> (0::int))"
  by (induction al) auto

lemma sum_increment: "sum_list (map snd (increment counts key)) = sum_list (map snd counts) + 1"
  by (simp add: increment_def sum_update split: option.splits)

lemma sum_insort:
  "sum_list (map snd (insort x xs)) = snd x + sum_list (map snd (xs :: (string \<times> int) list))"
  by (induction xs) auto

lemma sum_sort: "sum_list (map snd (sort xs)) = sum_list (map snd (xs :: (string \<times> int) list))"
  by (induction xs) (simp_all add: sum_insort)

lemma foldl_add_control:
  "foldl add_control (ctrls, kcounts, dcounts) ids = (ctrls', kcounts', dcounts') \<Longrightarrow>
   ctrls' = ctrls @ map make_control ids
   \<and> sum_list (map snd kcounts') = sum_list (map snd kcounts) + int (length ids)
   \<and> sum_list (map snd dcounts') = sum_list (map snd dcounts) + int (length ids)"
proof (induction ids arbitrary: ctrls kcounts dcounts)
  case Nil
  then show ?case by simp
next
  case (Cons cid ids)
  have step: "add_control (ctrls, kcounts, dcounts) cid =
          (ctrls @ [make_control cid], increment kcounts (infer_control_kind cid),
           increment dcounts (infer_control_domain cid))"
    by (simp add: add_control_def make_control_def Let_def)
  from Cons.prems have
    "foldl add_control (ctrls @ [make_control cid], increment kcounts (infer_control_kind cid),
           increment dcounts (infer_control_domain cid)) ids = (ctrls', kcounts', dcounts')"
    by (simp add: step)
  from Cons.IH[OF this] show ?case by (simp add: sum_increment)
qed

lemma make_form_entry_counts:
  "control_count (make_form_entry f) = int (length (controls f))
   \<and> action_count (make_form_entry f) = int (length (actions f))
   \<and> entry_form_name (make_form_entry f) = form_name f
   \<and> entry_resource_file (make_form_entry f) = resource_file f
   \<and> entry_controls (make_form_entry f) = map make_control (controls f)
   \<and> sum_list (map snd (kind_counts (make_form_entry f))) = int (length (controls f))
   \<and> sum_list (map snd (domain_counts (make_form_entry f))) = int (length (controls f))"
proof -
  obtain ctrls kcounts dcounts where
    t: "foldl add_control ([], [], []) (controls f) = (ctrls, kcounts, dcounts)"
    by (cases "foldl add_control ([], [], []) (controls f)")
  from foldl_add_control[OF t] show ?thesis
    by (simp add: make_form_entry_def t sum_sort)
qed

text \<open>
  C10: for every form entry of the schema document: \<^verbatim>\<open>control_count\<close> is the length of the
  list of control records, the sum of the values of \<^verbatim>\<open>kind_counts\<close> and the sum of the values
  of \<^verbatim>\<open>domain_counts\<close>; every control record carries the kind and the domain that the two
  classifiers give to its identifier; and the entry is that of a selected form of the
  input, whose parsed actions \<^verbatim>\<open>action_count\<close> counts and whose parsed controls the records
  list in their original order.
\<close>

theorem build_form_schema_counts:
  "\<forall>e \<in> set (forms (build_form_schema now form_list)).
     control_count e = int (length (entry_controls e))
     \<and> control_count e = sum_list (map snd (kind_counts e))
     \<and> control_count e = sum_list (map snd (domain_counts e))
     \<and> (\<forall>c \<in> set (entry_controls e).
           kind c = infer_control_kind (control_id c)
           \<and> domain c = infer_control_domain (control_id c))
     \<and> (\<exists>f \<in> set form_list.
           form_name f \<in> target_forms \<and> e = make_form_entry f
           \<and> entry_form_name e = form_name f
           \<and> action_count e = int (length (actions f))
           \<and> control_count e = int (length (controls f))
           \<and> map control_id (entry_controls e) = controls f)"
proof
  fix e
  assume "e \<in> set (forms (build_form_schema now form_list))"
  then obtain f where f: "f \<in> set form_list" "form_name f \<in> target_forms"
    and e: "e = make_form_entry f"
    by (auto simp: build_form_schema_def Let_def)
  note c = make_form_entry_counts[of f]
  have ids: "map control_id (map make_control (controls f)) = controls f"
    by (simp add: comp_def make_control_def)
  have "\<forall>c \<in> set (entry_controls e).
           kind c = infer_control_kind (control_id c)
           \<and> domain c = infer_control_domain (control_id c)"
    using c unfolding e by (auto simp: make_control_def)
  moreover have "\<exists>f \<in> set form_list.
           form_name f \<in> target_forms \<and> e = make_form_entry f
           \<and> entry_form_name e = form_name f
           \<and> action_count e = int (length (actions f))
           \<and> control_count e = int (length (controls f))
           \<and> map control_id (entry_controls e) = controls f"
    using f c ids unfolding e by auto
  ultimately show "control_count e = int (length (entry_controls e))
     \<and> control_count e = sum_list (map snd (kind_counts e))
     \<and> control_count e = sum_list (map snd (domain_counts e))
     \<and> (\<forall>c \<in> set (entry_controls e).
           kind c = infer_control_kind (control_id c)
           \<and> domain c = infer_control_domain (control_id c))
     \<and> (\<exists>f \<in> set form_list.
           form_name f \<in> target_forms \<and> e = make_form_entry f
           \<and> entry_form_name e = form_name f
           \<and> action_count e = int (length (actions f))
           \<and> control_count e = int (length (controls f))
           \<and> map control_id (entry_controls e) = controls f)"
    using c unfolding e by simp
qed

section \<open>The worked input, evaluated\<close>

lemma parse_example: "parse_form_sections example_lines = example_forms"
  by code_simp

lemma matrix_example:
  "build_action_matrix example_forms example_tickets
     = [row_actAA, row_actAlignLeft, row_actZoomIn]"
  by code_simp

lemma schema_example:
  "forms (build_form_schema now example_forms) = [entry_TfrmOptions]"
  by code_simp

section \<open>The properties on the worked input\<close>

theorem build_action_matrix_reconciliation_witness:
  "row_actAlignLeft \<in> set (build_action_matrix example_forms example_tickets)
   \<and> \<not> Option.is_none (example_tickets (action row_actAlignLeft))
   \<and> carries row_actAlignLeft (the (example_tickets ''actAlignLeft''))
   \<and> dict_get (the (example_tickets ''actAlignLeft'')) ''ticket_id'' (Some []) = Some ''T-1''
   \<and> row_actAA \<in> set (build_action_matrix example_forms example_tickets)
   \<and> example_tickets (action row_actAA) = None
   \<and> aliases_of (collect_actions example_forms) (action row_actAA) = [''actAAExecute'']
   \<and> \<not> Option.is_none (example_tickets ''actAAExecute'')
   \<and> carries row_actAA (the (example_tickets ''actAAExecute''))
   \<and> dict_get (the (example_tickets ''actAAExecute'')) ''phase'' (Some []) = None
   \<and> phase row_actAA = None
   \<and> row_actZoomIn \<in> set (build_action_matrix example_forms example_tickets)
   \<and> example_tickets (action row_actZoomIn) = None
   \<and> aliases_of (collect_actions example_forms) (action row_actZoomIn) = [''actZoomIn'']
   \<and> status row_actZoomIn = ''unmapped''"
proof -
  let ?by = "collect_actions example_forms"
  have m1: "row_actAlignLeft \<in> set (build_action_matrix example_forms example_tickets)"
    and m2: "row_actAA \<in> set (build_action_matrix example_forms example_tickets)"
    and m3: "row_actZoomIn \<in> set (build_action_matrix example_forms example_tickets)"
    by (simp_all add: matrix_example)
  have a1: "action row_actAlignLeft = ''actAlignLeft''"
    and a2: "action row_actAA = ''actAA''"
    and a3: "action row_actZoomIn = ''actZoomIn''"
    by (simp_all add: row_actAlignLeft_def row_actAA_def row_actZoomIn_def)
  have k1: "\<not> Option.is_none (example_tickets ''actAlignLeft'')" by code_simp
  then obtain e1 where e1: "example_tickets ''actAlignLeft'' = Some e1"
    by (auto simp: Option.is_none_def)
  have k2: "Option.is_none (example_tickets ''actAA'')" by code_simp
  then have n2: "example_tickets ''actAA'' = None" by (simp add: Option.is_none_def)
  have al2: "aliases_of ?by ''actAA'' = [''actAAExecute'']" by code_simp
  have k2': "\<not> Option.is_none (example_tickets ''actAAExecute'')" by code_simp
  then obtain e2 where e2: "example_tickets ''actAAExecute'' = Some e2"
    by (auto simp: Option.is_none_def)
  have k3: "Option.is_none (example_tickets ''actZoomIn'')" by code_simp
  then have n3: "example_tickets ''actZoomIn'' = None" by (simp add: Option.is_none_def)
  have al3: "aliases_of ?by ''actZoomIn'' = [''actZoomIn'']" by code_simp
  have t1: "dict_get (the (example_tickets ''actAlignLeft'')) ''ticket_id'' (Some [])
              = Some ''T-1''"
    by code_simp
  have t2: "dict_get (the (example_tickets ''actAAExecute'')) ''phase'' (Some []) = None"
    by code_simp
  note c1 = build_action_matrix_reconciliation[OF m1, unfolded a1]
  note c2 = build_action_matrix_reconciliation[OF m2, unfolded a2]
  note c3 = build_action_matrix_reconciliation[OF m3, unfolded a3]
  from c1 e1 have r1: "carries row_actAlignLeft (the (example_tickets ''actAlignLeft''))"
    by simp
  from c2 have "\<forall>i e. i < length (aliases_of ?by ''actAA'')
                   \<and> example_tickets (aliases_of ?by ''actAA'' ! i) = Some e
                   \<and> (\<forall>j < i. example_tickets (aliases_of ?by ''actAA'' ! j) = None)
                   \<longrightarrow> carries row_actAA e"
    using n2 by blast
  from this[rule_format, of 0 e2] have r2: "carries row_actAA e2"
    by (simp add: al2 e2)
  from r2 e2 t2 have p2: "phase row_actAA = None" by (simp add: carries_def)
  from c3 n3 al3 have r3: "status row_actZoomIn = ''unmapped''" by simp
  from m1 m2 m3 k1 r1 t1 t2 p2 n2 al2 k2' r2 e2 n3 al3 r3 show ?thesis
    by (simp add: a1 a2 a3)
qed

theorem build_action_matrix_scope_witness:
  "form_name (example_forms ! 1) \<notin> source_form_names
   \<and> build_action_matrix [example_forms ! 1] example_tickets = []
   \<and> build_action_matrix (filter (\<lambda>f. form_name f \<in> source_form_names) example_forms)
        example_tickets = [row_actAA, row_actAlignLeft, row_actZoomIn]
   \<and> build_action_matrix (map drop_noise example_forms) example_tickets
        = [row_actAA, row_actAlignLeft, row_actZoomIn]
   \<and> row_actAlignLeft \<in> set (build_action_matrix example_forms example_tickets)
   \<and> prefix ''act'' (action row_actAlignLeft)
   \<and> alias_set example_forms (action row_actAlignLeft) = {''actAlignLeft'', ''actAlignLeftExecute''}
   \<and> form_set example_forms (action row_actAlignLeft) = {''TfrmLeat'', ''TfrmLeat_Macintosh''}
   \<and> canonical_set example_forms = {''actAA'', ''actAlignLeft'', ''actZoomIn''}"
proof -
  note t = build_action_matrix_scope[of example_forms example_tickets]
  note t' = build_action_matrix_scope[of "[example_forms ! 1]" example_tickets]
  have h: "\<forall>f \<in> set [example_forms ! 1]. form_name f \<notin> source_form_names" by code_simp
  with t' have 1: "build_action_matrix [example_forms ! 1] example_tickets = []" by blast
  have m: "row_actAlignLeft \<in> set (build_action_matrix example_forms example_tickets)"
    by (simp add: matrix_example)
  have a: "action row_actAlignLeft = ''actAlignLeft''" by (simp add: row_actAlignLeft_def)
  have al: "aliases_of (collect_actions example_forms) ''actAlignLeft''
              = [''actAlignLeft'', ''actAlignLeftExecute'']" by code_simp
  have fs: "forms_for_action_of (collect_actions example_forms) ''actAlignLeft''
              = [''TfrmLeat'', ''TfrmLeat_Macintosh'']" by code_simp
  from t have "\<forall>r \<in> set (build_action_matrix example_forms example_tickets).
        prefix ''act'' (action r)
        \<and> set (aliases_of (collect_actions example_forms) (action r)) = alias_set example_forms (action r)
        \<and> set (forms_for_action_of (collect_actions example_forms) (action r)) = form_set example_forms (action r)
        \<and> form_set example_forms (action r) \<subseteq> source_form_names"
    by blast
  from this[rule_format, OF m] have 2: "prefix ''act'' (action row_actAlignLeft)"
    and 3: "alias_set example_forms (action row_actAlignLeft) = {''actAlignLeft'', ''actAlignLeftExecute''}"
    and 4: "form_set example_forms (action row_actAlignLeft) = {''TfrmLeat'', ''TfrmLeat_Macintosh''}"
    unfolding a al fs by auto
  from t have "set (map action (build_action_matrix example_forms example_tickets))
                 = canonical_set example_forms" by blast
  then have 5: "canonical_set example_forms = {''actAA'', ''actAlignLeft'', ''actZoomIn''}"
    by (simp add: matrix_example row_actAA_def row_actAlignLeft_def row_actZoomIn_def)
  from t have "build_action_matrix example_forms example_tickets
     = build_action_matrix (filter (\<lambda>f. form_name f \<in> source_form_names) example_forms)
         example_tickets"
    by blast
  then have 6: "build_action_matrix (filter (\<lambda>f. form_name f \<in> source_form_names) example_forms)
        example_tickets = [row_actAA, row_actAlignLeft, row_actZoomIn]"
    by (simp only: matrix_example)
  from t have "build_action_matrix example_forms example_tickets
     = build_action_matrix (map drop_noise example_forms) example_tickets"
    by blast
  then have 7: "build_action_matrix (map drop_noise example_forms) example_tickets
        = [row_actAA, row_actAlignLeft, row_actZoomIn]"
    by (simp only: matrix_example)
  from h have h': "form_name (example_forms ! 1) \<notin> source_form_names" by simp
  from h' 1 2 3 4 5 6 7 m show ?thesis by blast
qed

theorem build_action_matrix_sorted_unique_witness:
  "row_actAlignLeft \<in> set (build_action_matrix example_forms example_tickets)
   \<and> map action (build_action_matrix example_forms example_tickets)
       = [''actAA'', ''actAlignLeft'', ''actZoomIn'']
   \<and> sorted [''actAA'', ''actAlignLeft'', ''actZoomIn'']
   \<and> aliases_of (collect_actions example_forms) (action row_actAlignLeft)
       = [''actAlignLeft'', ''actAlignLeftExecute'']
   \<and> sorted (aliases_of (collect_actions example_forms) (action row_actAlignLeft))
   \<and> distinct (aliases_of (collect_actions example_forms) (action row_actAlignLeft))
   \<and> aliases row_actAlignLeft = join '';'' [''actAlignLeft'', ''actAlignLeftExecute'']
   \<and> forms_for_action_of (collect_actions example_forms) (action row_actAlignLeft)
       = [''TfrmLeat'', ''TfrmLeat_Macintosh'']
   \<and> source_forms row_actAlignLeft = join '';'' [''TfrmLeat'', ''TfrmLeat_Macintosh'']"
proof -
  note t = build_action_matrix_sorted_unique[of example_forms example_tickets]
  have m: "row_actAlignLeft \<in> set (build_action_matrix example_forms example_tickets)"
    by (simp add: matrix_example)
  have a: "action row_actAlignLeft = ''actAlignLeft''" by (simp add: row_actAlignLeft_def)
  have al: "aliases_of (collect_actions example_forms) ''actAlignLeft''
              = [''actAlignLeft'', ''actAlignLeftExecute'']" by code_simp
  have fs: "forms_for_action_of (collect_actions example_forms) ''actAlignLeft''
              = [''TfrmLeat'', ''TfrmLeat_Macintosh'']" by code_simp
  have acts: "map action (build_action_matrix example_forms example_tickets)
       = [''actAA'', ''actAlignLeft'', ''actZoomIn'']"
    by (simp add: matrix_example row_actAA_def row_actAlignLeft_def row_actZoomIn_def)
  from t have 1: "sorted [''actAA'', ''actAlignLeft'', ''actZoomIn'']"
    unfolding acts by blast
  from t have "\<forall>r \<in> set (build_action_matrix example_forms example_tickets).
        aliases r = join '';'' (aliases_of (collect_actions example_forms) (action r))
        \<and> sorted (aliases_of (collect_actions example_forms) (action r))
        \<and> distinct (aliases_of (collect_actions example_forms) (action r))
        \<and> source_forms r = join '';'' (forms_for_action_of (collect_actions example_forms) (action r))
        \<and> sorted (forms_for_action_of (collect_actions example_forms) (action r))
        \<and> distinct (forms_for_action_of (collect_actions example_forms) (action r))"
    by blast
  from this[rule_format, OF m] m acts 1 al fs show ?thesis
    unfolding a by simp
qed

theorem parse_form_sections_one_per_header_witness:
  "header_of (example_lines ! 1) \<noteq> None
   \<and> parse_form_sections (take 1 example_lines @ example_lines ! 1 # drop 2 example_lines)
       = parse_form_sections (take 1 example_lines)
         @ parse_form_sections (example_lines ! 1 # drop 2 example_lines)
   \<and> list_all (\<lambda>l. header_of l = None) (take 1 example_lines)
   \<and> parse_form_sections (take 1 example_lines @ drop 1 example_lines)
       = parse_form_sections (drop 1 example_lines)
   \<and> parse_form_sections example_lines = example_forms
   \<and> length (filter (\<lambda>l. header_of l \<noteq> None) example_lines) = 3
   \<and> is_blank (example_lines ! 5)"
proof -
  have h: "header_of (example_lines ! 1) \<noteq> None" by code_simp
  have p: "\<forall>l \<in> set (take 1 example_lines). header_of l = None" by code_simp
  have n: "length (filter (\<lambda>l. header_of l \<noteq> None) example_lines) = 3" by code_simp
  have b: "is_blank (example_lines ! 5)" by code_simp
  note t1 = parse_form_sections_one_per_header[of "example_lines" "example_lines ! 1"
      "take 1 example_lines" "drop 2 example_lines"]
  note t2 = parse_form_sections_one_per_header[of "drop 1 example_lines" "example_lines ! 1"
      "take 1 example_lines" "drop 2 example_lines"]
  from t1 h have 1: "parse_form_sections (take 1 example_lines @ example_lines ! 1 # drop 2 example_lines)
       = parse_form_sections (take 1 example_lines)
         @ parse_form_sections (example_lines ! 1 # drop 2 example_lines)"
    by blast
  from t2 p have 2: "parse_form_sections (take 1 example_lines @ drop 1 example_lines)
       = parse_form_sections (drop 1 example_lines)"
    by blast
  from p have p': "list_all (\<lambda>l. header_of l = None) (take 1 example_lines)"
    by (simp add: list_all_iff)
  from h p' n b 1 2 parse_example show ?thesis by blast
qed

theorem load_action_ticket_map_last_wins_witness:
  "[ticket_row_1, ticket_row_2, ticket_row_3, ticket_row_4]
     = [ticket_row_1, ticket_row_2] @ ticket_row_3 # [ticket_row_4]
   \<and> row_action ticket_row_3 \<noteq> []
   \<and> row_action ticket_row_1 = row_action ticket_row_3
   \<and> row_action ticket_row_2 = []
   \<and> row_action ticket_row_4 \<noteq> row_action ticket_row_3
   \<and> load_action_ticket_map [ticket_row_1, ticket_row_2, ticket_row_3, ticket_row_4]
        (row_action ticket_row_3) = Some ticket_row_3
   \<and> ticket_row_3 \<in> set [ticket_row_1, ticket_row_2, ticket_row_3, ticket_row_4]"
proof -
  let ?rows = "[ticket_row_1, ticket_row_2, ticket_row_3, ticket_row_4]"
  note t = load_action_ticket_map_last_wins[of ?rows]
  have s: "?rows = [ticket_row_1, ticket_row_2] @ ticket_row_3 # [ticket_row_4]" by simp
  have a: "row_action ticket_row_3 \<noteq> []" by code_simp
  have b: "row_action ticket_row_1 = row_action ticket_row_3" by code_simp
  have c: "row_action ticket_row_2 = []" by code_simp
  have d: "\<forall>r' \<in> set [ticket_row_4]. row_action r' \<noteq> row_action ticket_row_3" by code_simp
  from t have "\<forall>pre r post.
         ?rows = pre @ r # post \<and> row_action r \<noteq> []
         \<and> (\<forall>r' \<in> set post. row_action r' \<noteq> row_action r)
         \<longrightarrow> load_action_ticket_map ?rows (row_action r) = Some r"
    by blast
  from this[rule_format, of "[ticket_row_1, ticket_row_2]" ticket_row_3 "[ticket_row_4]"] s a d
  have 1: "load_action_ticket_map ?rows (row_action ticket_row_3) = Some ticket_row_3"
    by blast
  from t have "\<forall>k r. load_action_ticket_map ?rows k = Some r \<longrightarrow> r \<in> set ?rows \<and> row_action r = k"
    by blast
  from this[rule_format, OF 1] have 2: "ticket_row_3 \<in> set ?rows" by blast
  from d have d': "row_action ticket_row_4 \<noteq> row_action ticket_row_3" by simp
  from s a b c d' 1 2 show ?thesis by blast
qed

theorem build_form_schema_counts_witness:
  "entry_TfrmOptions \<in> set (forms (build_form_schema ''2026-01-01T00:00:00+00:00'' example_forms))
   \<and> control_count entry_TfrmOptions = 4
   \<and> int (length (entry_controls entry_TfrmOptions)) = 4
   \<and> sum_list (map snd (kind_counts entry_TfrmOptions)) = 4
   \<and> sum_list (map snd (domain_counts entry_TfrmOptions)) = 4
   \<and> entry_controls entry_TfrmOptions ! 0 \<in> set (entry_controls entry_TfrmOptions)
   \<and> kind (entry_controls entry_TfrmOptions ! 0) = infer_control_kind ''chkStitchAutoSave''
   \<and> domain (entry_controls entry_TfrmOptions ! 0) = infer_control_domain ''chkStitchAutoSave''
   \<and> entry_TfrmOptions = make_form_entry (example_forms ! 1)"
proof -
  have m: "entry_TfrmOptions \<in> set (forms (build_form_schema ''2026-01-01T00:00:00+00:00'' example_forms))"
    by (simp add: schema_example)
  note t = build_form_schema_counts[of "''2026-01-01T00:00:00+00:00''" example_forms, rule_format, OF m]
  have cc: "control_count entry_TfrmOptions = 4" by (simp add: entry_TfrmOptions_def)
  have c0: "entry_controls entry_TfrmOptions ! 0 \<in> set (entry_controls entry_TfrmOptions)"
    by (simp add: entry_TfrmOptions_def)
  have id0: "control_id (entry_controls entry_TfrmOptions ! 0) = ''chkStitchAutoSave''"
    by (simp add: entry_TfrmOptions_def)
  have e: "entry_TfrmOptions = make_form_entry (example_forms ! 1)" by code_simp
  from t have "\<forall>c \<in> set (entry_controls entry_TfrmOptions).
           kind c = infer_control_kind (control_id c)
           \<and> domain c = infer_control_domain (control_id c)"
    by blast
  from this[rule_format, OF c0] have
    1: "kind (entry_controls entry_TfrmOptions ! 0) = infer_control_kind ''chkStitchAutoSave''"
    and 2: "domain (entry_controls entry_TfrmOptions ! 0) = infer_control_domain ''chkStitchAutoSave''"
    unfolding id0 by simp_all
  from t cc have 3: "int (length (entry_controls entry_TfrmOptions)) = 4"
    and 4: "sum_list (map snd (kind_counts entry_TfrmOptions)) = 4"
    and 5: "sum_list (map snd (domain_counts entry_TfrmOptions)) = 4"
    by simp_all
  from m cc c0 e 1 2 3 4 5 show ?thesis by blast
qed

end
